theory Spec2Isabelle
  imports Complex_Main "HOL-Library.Word" "HOL-Library.Signed_Division"
begin

unbundle bit_operations_syntax

section \<open>The two-phase BFS enactor (b40c/graph/bfs/enactor_two_phase.cuh)\<close>

text \<open>
  The enactor is host code: it calls the CUDA runtime, the work-progress and lifetime
  utilities and launches kernels. None of those is part of the file; each such call is
  recorded in a trace kept in the enactor state, and what the call answers is read from a
  \<open>world\<close>, a deterministic function of the trace so far. Any behaviour of the
  device and the runtime is some world, so a theorem for all worlds holds for all of them.
  Diagnostic output (\<open>printf\<close>, \<open>fflush\<close>) is left out.
\<close>

subsection \<open>Status codes, kernel arguments, external calls\<close>

text \<open>\<open>cudaError_t\<close>: the two codes the file names, and any other code of the runtime.\<close>

datatype cudaError_t = cudaSuccess | cudaErrorInvalidConfiguration | cudaErrorOther nat

text \<open>Cache modifiers of the tuning policies (\<open>util::io::ld\<close>, \<open>util::io::st\<close>).\<close>

datatype modifier = NONE | cg

text \<open>
  The template arguments of \<open>two_phase::KernelPolicy\<close> and of
  \<open>two_phase::expand_atomic::KernelPolicy\<close> (the same list), and those of
  \<open>two_phase::contract_atomic::KernelPolicy\<close>, under the names the comments of the
  file give them. The policy classes themselves are not part of the file:
  \<open>KernelPolicy::CTA_OCCUPANCY\<close> is read as the argument of that name and
  \<open>KernelPolicy::THREADS\<close> as two to the power \<open>LOG_THREADS\<close>.
\<close>

record expand_policy =
  CUDA_ARCH :: int
  INSTRUMENT :: bool
  SATURATION_QUIT :: int
  CTA_OCCUPANCY :: int
  LOG_THREADS :: nat
  LOG_LOAD_VEC_SIZE :: nat
  LOG_LOADS_PER_TILE :: nat
  LOG_RAKING_THREADS :: nat
  QUEUE_READ_MODIFIER :: modifier
  COLUMN_READ_MODIFIER :: modifier
  ROW_OFFSET_ALIGNED_READ_MODIFIER :: modifier
  ROW_OFFSET_UNALIGNED_READ_MODIFIER :: modifier
  QUEUE_WRITE_MODIFIER :: modifier
  WORK_STEALING :: bool
  WARP_GATHER_THRESHOLD :: int
  CTA_GATHER_THRESHOLD :: int
  LOG_SCHEDULE_GRANULARITY :: nat

record contract_policy =
  C_CUDA_ARCH :: int
  C_INSTRUMENT :: bool
  DEQUEUE_PROBLEM_SIZE :: bool
  C_CTA_OCCUPANCY :: int
  C_LOG_THREADS :: nat
  C_LOG_LOAD_VEC_SIZE :: nat
  C_LOG_LOADS_PER_TILE :: nat
  C_LOG_RAKING_THREADS :: nat
  C_QUEUE_READ_MODIFIER :: modifier
  C_QUEUE_WRITE_MODIFIER :: modifier
  C_WORK_STEALING :: bool
  C_LOG_SCHEDULE_GRANULARITY :: nat

definition THREADS :: "expand_policy \<Rightarrow> int" where
  "THREADS pol = 2 ^ LOG_THREADS pol"

definition C_THREADS :: "contract_policy \<Rightarrow> int" where
  "C_THREADS pol = 2 ^ C_LOG_THREADS pol"

text \<open>
  What a kernel is handed by reference: the arrays of the graph slice
  (\<open>frontier_queues.d_keys[i]\<close>, \<open>frontier_queues.d_values[i]\<close>, ...) and the
  enactor's own device-visible objects.
\<close>

datatype device_ref =
    d_keys nat | d_values nat
  | d_column_indices | d_row_offsets | d_labels | d_visited_mask
  | work_progress | ref_global_barrier
  | ref_expand_kernel_stats | ref_contract_kernel_stats
  | ref_d_done | ref_d_iteration

text \<open>
  The single graph slice of the problem: what \<open>Setup\<close> and the launches read of it.
  The slice type is not part of the file; \<open>graph_slice->nodes\<close> is a 32-bit
  \<open>int\<close>, the type in which line 169 computes \<open>bytes\<close>, and
  \<open>sizeof(SizeT)\<close> a 64-bit \<open>size_t\<close>.
\<close>

record csr_problem =
  slice_nodes :: "32 word"
  frontier_elements_0 :: int
  frontier_elements_1 :: int
  sizeof_SizeT :: "64 word"

text \<open>
  The arguments of the three kernel launches, scalars by name, references in order. The
  type parameter \<open>'v\<close> is \<open>VertexId\<close>, a machine integer (\<open>'a word\<close>) wherever
  the code computes with it.
\<close>

record 'v fused_args =
  f_policy :: expand_policy
  f_grid_size :: int
  f_threads :: int
  f_iteration :: int
  f_queue_index :: int
  f_steal_index :: int
  f_src :: 'v
  f_max_edge_frontier :: int
  f_max_vertex_frontier :: int
  f_device_args :: "device_ref list"

record 'v contract_args =
  c_policy :: contract_policy
  c_grid_size :: int
  c_threads :: int
  c_src :: 'v
  c_iteration :: "64 word"
  c_num_elements :: int
  c_queue_index :: 'v
  c_steal_index :: 'v
  c_num_gpus :: int
  c_max_vertex_frontier :: int
  c_device_args :: "device_ref list"

record 'v expand_args =
  e_policy :: expand_policy
  e_grid_size :: int
  e_threads :: int
  e_queue_index :: 'v
  e_steal_index :: 'v
  e_num_gpus :: int
  e_max_edge_frontier :: int
  e_device_args :: "device_ref list"

text \<open>
  Every call that leaves the file. \<open>Read_done\<close> is the host's read of the mapped word
  \<open>done[0]\<close>, which the kernels write. The two \<open>Alloc\<close> calls are the allocations
  of the lifetime objects (see \<open>GlobalBarrierLifetime_Setup\<close> below).
\<close>

datatype 'v call =
    HostAlloc_done
  | HostGetDevicePointer_done
  | EventCreateWithFlags_throttle
  | HostAlloc_iteration
  | HostGetDevicePointer_iteration
  | Alloc_global_barrier int
  | Alloc_kernel_stats device_ref int
  | BindTexture_bitmask "32 word"
  | BindTexture_row_offsets "64 word"
  | Launch_fused "'v fused_args"
  | Launch_contract "'v contract_args"
  | Launch_expand "'v expand_args"
  | ThreadSynchronize
  | GetQueueLength 'v
  | Accumulate device_ref int
  | EventRecord_throttle
  | EventSynchronize_throttle
  | Read_done

text \<open>
  The world. Each function is applied to the trace that ends with the call it answers.
  \<^item> \<open>status\<close>: the \<open>cudaError_t\<close> the call returns;
  \<^item> \<open>queue_length_out\<close>: what \<open>GetQueueLength\<close> stores in \<open>queue_length\<close>,
    as the \<open>unsigned long long\<close> that \<open>total_queued += queue_length\<close> adds;
  \<^item> \<open>accumulated\<close>: what \<open>Accumulate\<close> leaves in the totals it is handed by
    reference (\<open>total_runtimes\<close>, \<open>total_lifetimes\<close>, \<open>total_queued\<close>), from
    what they held;
  \<^item> \<open>device_done\<close>: the content of \<open>done[0]\<close> when the host reads it;
  \<^item> \<open>device_iteration\<close>: what the fused kernel leaves in \<open>iteration[0]\<close>;
  \<^item> \<open>uninit_done\<close>, \<open>uninit_iteration\<close>: the content of freshly allocated
    pinned memory;
  \<^item> \<open>MaxGridSize\<close>: \<open>EnactorBase::MaxGridSize(cta_occupancy, max_grid_size)\<close>,
    which is not part of the file.
\<close>

record 'v world =
  status :: "'v call list \<Rightarrow> cudaError_t"
  queue_length_out :: "'v call list \<Rightarrow> 64 word"
  accumulated ::
    "'v call list \<Rightarrow> 64 word \<times> 64 word \<times> 64 word \<Rightarrow> 64 word \<times> 64 word \<times> 64 word"
  device_done :: "'v call list \<Rightarrow> 32 word"
  device_iteration :: "'v call list \<Rightarrow> 64 word"
  uninit_done :: "32 word"
  uninit_iteration :: "64 word"
  MaxGridSize :: "int \<Rightarrow> int \<Rightarrow> int"

subsection \<open>The enactor state\<close>

text \<open>
  The members of \<open>EnactorTwoPhase\<close> and the two members of \<open>EnactorBase\<close> the file
  reads (\<open>DEBUG\<close>, \<open>cuda_props.device_sm_version\<close>). A host pointer to mapped memory
  is \<open>None\<close> when it is \<open>NULL\<close> and \<open>Some v\<close> when it points to a word holding
  \<open>v\<close>; \<open>done\<close> is a keyword here, so the pointer \<open>done\<close> is \<open>done_host\<close>.
  A lifetime object is \<open>None\<close> until it has allocated, then \<open>Some n\<close> for the
  group count \<open>n\<close> it was sized for.
\<close>

record 'v enactor =
  DEBUG :: bool
  device_sm_version :: int
  expand_kernel_stats :: "int option"
  contract_kernel_stats :: "int option"
  total_runtimes :: "64 word"
  total_lifetimes :: "64 word"
  total_queued :: "64 word"
  done_host :: "32 word option"
  d_done :: bool
  throttle_event :: bool
  global_barrier :: "int option"
  iteration :: "64 word option"
  d_iteration :: bool
  trace :: "'v call list"

text \<open>
  The constructor initialises \<open>iteration\<close>, \<open>d_iteration\<close>, \<open>total_queued\<close>,
  \<open>done\<close> and \<open>d_done\<close>; \<open>total_runtimes\<close> and \<open>total_lifetimes\<close> are left
  as they are found (\<open>rt0\<close>, \<open>lt0\<close>). The device generation comes from the base class.
\<close>

definition EnactorTwoPhase :: "int \<Rightarrow> 64 word \<Rightarrow> 64 word \<Rightarrow> bool \<Rightarrow> 'v enactor" where
  "EnactorTwoPhase sm_version rt0 lt0 debug =
     \<lparr> DEBUG = debug, device_sm_version = sm_version,
       expand_kernel_stats = None, contract_kernel_stats = None,
       total_runtimes = rt0, total_lifetimes = lt0, total_queued = 0,
       done_host = None, d_done = False, throttle_event = False,
       global_barrier = None,
       iteration = None, d_iteration = False,
       trace = [] \<rparr>"

text \<open>
  \<open>util::B40CPerror(error, message, file, line)\<close> reports a failure and hands the code
  back; the call below records the operation and returns its status.
\<close>

definition invoke :: "'v world \<Rightarrow> 'v call \<Rightarrow> 'v enactor \<Rightarrow> cudaError_t \<times> 'v enactor" where
  "invoke w c s = (let h = trace s @ [c] in (status w h, s\<lparr>trace := h\<rparr>))"

text \<open>A kernel launch returns nothing to the host.\<close>

definition launch :: "'v call \<Rightarrow> 'v enactor \<Rightarrow> 'v enactor" where
  "launch c s = s\<lparr>trace := trace s @ [c]\<rparr>"

text \<open>\<open>if (retval = op) break;\<close> followed by the rest of the \<open>do { } while (0)\<close> block.\<close>

definition or_break ::
  "cudaError_t \<times> 'a \<Rightarrow> ('a \<Rightarrow> cudaError_t \<times> 'a) \<Rightarrow> cudaError_t \<times> 'a" where
  "or_break r rest = (if fst r \<noteq> cudaSuccess then r else rest (snd r))"

subsection \<open>Setup\<close>

text \<open>Lines 121-135: the host-mapped \<open>done\<close>, its device pointer, the throttle event.\<close>

definition init_done :: "'v world \<Rightarrow> 'v enactor \<Rightarrow> cudaError_t \<times> 'v enactor" where
  "init_done w s =
     (if done_host s \<noteq> None then (cudaSuccess, s)
      else
        or_break
          (case invoke w HostAlloc_done s of
             (r, s1) \<Rightarrow> (r, if r = cudaSuccess then s1\<lparr>done_host := Some (uninit_done w)\<rparr> else s1))
          (\<lambda>s. or_break
            (case invoke w HostGetDevicePointer_done s of
               (r, s1) \<Rightarrow> (r, if r = cudaSuccess then s1\<lparr>d_done := True\<rparr> else s1))
            (\<lambda>s. case invoke w EventCreateWithFlags_throttle s of
               (r, s1) \<Rightarrow> (r, if r = cudaSuccess then s1\<lparr>throttle_event := True\<rparr> else s1))))"

text \<open>Lines 138-149: the host-mapped \<open>iteration\<close> and its device pointer.\<close>

definition init_iteration :: "'v world \<Rightarrow> 'v enactor \<Rightarrow> cudaError_t \<times> 'v enactor" where
  "init_iteration w s =
     (if iteration s \<noteq> None then (cudaSuccess, s)
      else
        or_break
          (case invoke w HostAlloc_iteration s of
             (r, s1) \<Rightarrow> (r, if r = cudaSuccess then s1\<lparr>iteration := Some (uninit_iteration w)\<rparr> else s1))
          (\<lambda>s. case invoke w HostGetDevicePointer_iteration s of
             (r, s1) \<Rightarrow> (r, if r = cudaSuccess then s1\<lparr>d_iteration := True\<rparr> else s1)))"

text \<open>
  Modelled from the spec: \<open>util::GlobalBarrierLifetime::Setup\<close> is not among the source
  files. Section 6 of the specification: "\<open>Setup(groupCount)\<close> - allocates
  generation-counter state sized for the given concurrency"; section 4.1: the long-lived
  allocations (handshake memory, barrier state, statistics lifetime) are idempotent,
  "first call allocates, later calls are no-ops for those"; section 7: barrier setup can
  fail.
\<close>

definition GlobalBarrierLifetime_Setup ::
  "'v world \<Rightarrow> int \<Rightarrow> 'v enactor \<Rightarrow> cudaError_t \<times> 'v enactor" where
  "GlobalBarrierLifetime_Setup w grid_size s =
     (case global_barrier s of
        Some n \<Rightarrow> (cudaSuccess, s)
      | None \<Rightarrow>
          (case invoke w (Alloc_global_barrier grid_size) s of
             (r, s1) \<Rightarrow> (r, if r = cudaSuccess then s1\<lparr>global_barrier := Some grid_size\<rparr> else s1)))"

text \<open>
  Modelled from the spec: \<open>util::KernelRuntimeStatsLifetime::Setup\<close> is not among the
  source files. Section 6 of the specification: "Statistics Lifetime:
  \<open>Setup(groupCount)\<close>"; section 4.1 as for the barrier: the first call allocates,
  later calls are no-ops. One definition for each of the two members.
\<close>

definition expand_kernel_stats_Setup ::
  "'v world \<Rightarrow> int \<Rightarrow> 'v enactor \<Rightarrow> cudaError_t \<times> 'v enactor" where
  "expand_kernel_stats_Setup w grid_size s =
     (case expand_kernel_stats s of
        Some n \<Rightarrow> (cudaSuccess, s)
      | None \<Rightarrow>
          (case invoke w (Alloc_kernel_stats ref_expand_kernel_stats grid_size) s of
             (r, s1) \<Rightarrow>
               (r, if r = cudaSuccess then s1\<lparr>expand_kernel_stats := Some grid_size\<rparr> else s1)))"

definition contract_kernel_stats_Setup ::
  "'v world \<Rightarrow> int \<Rightarrow> 'v enactor \<Rightarrow> cudaError_t \<times> 'v enactor" where
  "contract_kernel_stats_Setup w grid_size s =
     (case contract_kernel_stats s of
        Some n \<Rightarrow> (cudaSuccess, s)
      | None \<Rightarrow>
          (case invoke w (Alloc_kernel_stats ref_contract_kernel_stats grid_size) s of
             (r, s1) \<Rightarrow>
               (r, if r = cudaSuccess then s1\<lparr>contract_kernel_stats := Some grid_size\<rparr> else s1)))"

text \<open>
  Lines 159-163: the stores go through the two pointers, into the words they point to.
  Both pointers are non-null here: the two blocks above either found them so or allocated
  them (lemmas \<open>init_done_allocates\<close>, \<open>init_iteration_allocates\<close>), and
  \<open>Setup\<close> reaches the reset only through them.
\<close>

definition reset_statistics :: "'v enactor \<Rightarrow> 'v enactor" where
  "reset_statistics s =
     s\<lparr> iteration := map_option (\<lambda>_. 0) (iteration s), total_runtimes := 0,
        total_lifetimes := 0, total_queued := 0,
        done_host := map_option (\<lambda>_. 0) (done_host s) \<rparr>"

text \<open>
  Line 169: \<open>int bytes = (graph_slice->nodes + 8 - 1) / 8\<close>, in 32-bit \<open>int\<close>:
  the sum wraps around, \<open>/\<close> of C truncates towards zero.
\<close>

definition bitmask_bytes :: "csr_problem \<Rightarrow> 32 word" where
  "bitmask_bytes p = word_of_int (sint (slice_nodes p + 8 - 1) sdiv 8)"

text \<open>
  Line 186: \<open>(graph_slice->nodes + 1) * sizeof(SizeT)\<close>: the sum in \<open>int\<close>,
  then converted (with its sign) to \<open>size_t\<close> for the product.
\<close>

definition row_offsets_bytes :: "csr_problem \<Rightarrow> 64 word" where
  "row_offsets_bytes p = scast (slice_nodes p + 1) * sizeof_SizeT p"

text \<open>Lines 169-187: the two texture bindings.\<close>

definition bind_bitmask :: "'v world \<Rightarrow> csr_problem \<Rightarrow> 'v enactor \<Rightarrow> cudaError_t \<times> 'v enactor" where
  "bind_bitmask w p s = invoke w (BindTexture_bitmask (bitmask_bytes p)) s"

definition bind_row_offsets ::
  "'v world \<Rightarrow> csr_problem \<Rightarrow> 'v enactor \<Rightarrow> cudaError_t \<times> 'v enactor" where
  "bind_row_offsets w p s = invoke w (BindTexture_row_offsets (row_offsets_bytes p)) s"

definition Setup ::
  "'v world \<Rightarrow> csr_problem \<Rightarrow> int \<Rightarrow> int \<Rightarrow> 'v enactor \<Rightarrow> cudaError_t \<times> 'v enactor" where
  "Setup w csr expand_grid_size contract_grid_size s =
     or_break (init_done w s) (\<lambda>s.
     or_break (init_iteration w s) (\<lambda>s.
     or_break (GlobalBarrierLifetime_Setup w expand_grid_size s) (\<lambda>s.
     or_break (expand_kernel_stats_Setup w expand_grid_size s) (\<lambda>s.
     or_break (contract_kernel_stats_Setup w contract_grid_size s) (\<lambda>s.
     or_break (bind_bitmask w csr (reset_statistics s)) (\<lambda>s.
     bind_row_offsets w csr s))))))"

subsection \<open>The fused search\<close>

text \<open>
  \<open>KernelRuntimeStatsLifetime::Accumulate\<close> with four arguments: the three totals are
  handed by reference.
\<close>

definition Accumulate_fused ::
  "'v world \<Rightarrow> int \<Rightarrow> 'v enactor \<Rightarrow> cudaError_t \<times> 'v enactor" where
  "Accumulate_fused w grid_size s =
     (case invoke w (Accumulate ref_expand_kernel_stats grid_size) s of
        (r, s1) \<Rightarrow>
          (case accumulated w (trace s1) (total_runtimes s1, total_lifetimes s1, total_queued s1) of
             (rt, lt, tq) \<Rightarrow>
               (r, s1\<lparr>total_runtimes := rt, total_lifetimes := lt, total_queued := tq\<rparr>)))"

text \<open>
  Lines 284-305, the launch of \<open>two_phase::Kernel\<close>. The kernel is handed
  \<open>d_iteration\<close> and advances the mapped counter itself: what it leaves there is the
  world's \<open>device_iteration\<close>.
\<close>

definition launch_fused ::
  "'v world \<Rightarrow> expand_policy \<Rightarrow> csr_problem \<Rightarrow> 'v \<Rightarrow> int \<Rightarrow> 'v enactor \<Rightarrow> 'v enactor" where
  "launch_fused w pol csr src grid_size s =
     (let s1 = launch (Launch_fused
                 \<lparr> f_policy = pol, f_grid_size = grid_size, f_threads = THREADS pol,
                   f_iteration = 0, f_queue_index = 0, f_steal_index = 0, f_src = src,
                   f_max_edge_frontier = frontier_elements_1 csr,
                   f_max_vertex_frontier = frontier_elements_0 csr,
                   f_device_args =
                     [d_keys 1, d_keys 0, d_values 1, d_column_indices, d_row_offsets,
                      d_labels, d_visited_mask, work_progress, ref_global_barrier,
                      ref_expand_kernel_stats, ref_d_iteration] \<rparr>) s
      in s1\<lparr>iteration := map_option (\<lambda>_. device_iteration w (trace s1)) (iteration s1)\<rparr>)"

text \<open>\<open>EnactFusedSearch<KernelPolicy, CsrProblem>\<close>, lines 254-321.\<close>

definition EnactFusedSearch_policy ::
  "bool \<Rightarrow> 'v world \<Rightarrow> expand_policy \<Rightarrow> csr_problem \<Rightarrow> 'v \<Rightarrow> int \<Rightarrow> 'v enactor
     \<Rightarrow> cudaError_t \<times> 'v enactor" where
  "EnactFusedSearch_policy instrument w KernelPolicy csr src max_grid_size s =
     (let occupancy = CTA_OCCUPANCY KernelPolicy;
          grid_size = MaxGridSize w occupancy max_grid_size
      in or_break (Setup w csr grid_size 0 s) (\<lambda>s.
         or_break
           (let s1 = launch_fused w KernelPolicy csr src grid_size s
            in if DEBUG s1 then invoke w ThreadSynchronize s1 else (cudaSuccess, s1))
           (\<lambda>s. if instrument then Accumulate_fused w grid_size s else (cudaSuccess, s))))"

text \<open>The fused tuning configuration of lines 339-357.\<close>

definition fused_policy_200 :: "bool \<Rightarrow> expand_policy" where
  "fused_policy_200 instrument =
     \<lparr> CUDA_ARCH = 200, INSTRUMENT = instrument, SATURATION_QUIT = 0, CTA_OCCUPANCY = 8,
       LOG_THREADS = 7, LOG_LOAD_VEC_SIZE = 0, LOG_LOADS_PER_TILE = 0,
       LOG_RAKING_THREADS = 5, QUEUE_READ_MODIFIER = cg, COLUMN_READ_MODIFIER = NONE,
       ROW_OFFSET_ALIGNED_READ_MODIFIER = cg, ROW_OFFSET_UNALIGNED_READ_MODIFIER = NONE,
       QUEUE_WRITE_MODIFIER = cg, WORK_STEALING = False, WARP_GATHER_THRESHOLD = 128,
       CTA_GATHER_THRESHOLD = 128, LOG_SCHEDULE_GRANULARITY = 6 \<rparr>"

text \<open>\<open>EnactFusedSearch<CsrProblem>\<close>, lines 330-367.\<close>

definition EnactFusedSearch ::
  "bool \<Rightarrow> 'v world \<Rightarrow> csr_problem \<Rightarrow> 'v \<Rightarrow> int \<Rightarrow> 'v enactor \<Rightarrow> cudaError_t \<times> 'v enactor" where
  "EnactFusedSearch instrument w csr src max_grid_size s =
     (if 200 \<le> device_sm_version s
      then EnactFusedSearch_policy instrument w (fused_policy_200 instrument) csr src max_grid_size s
      else (cudaErrorInvalidConfiguration, s))"

subsection \<open>The iterative search\<close>

text \<open>
  The locals of \<open>EnactIterativeSearch\<close> that change in the loop, with the enactor; and
  what is in scope and does not change.
\<close>

record 'v frame =
  en :: "'v enactor"
  retval :: cudaError_t
  queue_index :: 'v
  queue_length :: "64 word"

record 'v search_cfg =
  cfg_INSTRUMENT :: bool
  cfg_world :: "'v world"
  ExpandPolicy :: expand_policy
  ContractPolicy :: contract_policy
  cfg_problem :: csr_problem
  cfg_src :: 'v
  expand_grid_size :: int
  contract_grid_size :: int

text \<open>
  One pass through the body of \<open>while (true)\<close> either reaches the end of the body
  (\<open>Continue\<close>), leaves the loop by a \<open>break\<close> (\<open>Break\<close>), or reads through a null
  host pointer (\<open>Fault\<close>).
\<close>

datatype 'a step = Continue 'a | Break 'a | Fault

fun then_step :: "'a step \<Rightarrow> ('a \<Rightarrow> 'a step) \<Rightarrow> 'a step" where
  "then_step (Continue x) rest = rest x"
| "then_step (Break x) rest = Break x"
| "then_step Fault rest = Fault"

text \<open>\<open>if (retval = op) break;\<close> inside the loop.\<close>

definition attempt :: "'v world \<Rightarrow> 'v call \<Rightarrow> 'v frame \<Rightarrow> 'v frame step" where
  "attempt w c st =
     (case invoke w c (en st) of
        (r, e) \<Rightarrow>
          (let st' = st\<lparr>en := e, retval := r\<rparr>
           in if r \<noteq> cudaSuccess then Break st' else Continue st'))"

text \<open>\<open>if (DEBUG && (retval = cudaThreadSynchronize())) break;\<close>\<close>

definition debug_sync :: "'v world \<Rightarrow> 'v frame \<Rightarrow> 'v frame step" where
  "debug_sync w st = (if DEBUG (en st) then attempt w ThreadSynchronize st else Continue st)"

text \<open>Line 447: the status of \<open>GetQueueLength\<close> is assigned to \<open>retval\<close>.\<close>

definition GetQueueLength_contract :: "'v world \<Rightarrow> 'v frame \<Rightarrow> 'v frame step" where
  "GetQueueLength_contract w st =
     (case invoke w (GetQueueLength (queue_index st)) (en st) of
        (r, e) \<Rightarrow>
          (let st' = st\<lparr>en := e, retval := r, queue_length := queue_length_out w (trace e)\<rparr>
           in if r \<noteq> cudaSuccess then Break st' else Continue st'))"

text \<open>Line 490: the status of \<open>GetQueueLength\<close> is tested and not assigned.\<close>

definition GetQueueLength_expand :: "'v world \<Rightarrow> 'v frame \<Rightarrow> 'v frame step" where
  "GetQueueLength_expand w st =
     (case invoke w (GetQueueLength (queue_index st)) (en st) of
        (r, e) \<Rightarrow>
          (let st' = st\<lparr>en := e, queue_length := queue_length_out w (trace e)\<rparr>
           in if r \<noteq> cudaSuccess then Break st' else Continue st'))"

text \<open>
  \<open>KernelRuntimeStatsLifetime::Accumulate\<close> with three arguments:
  \<open>total_runtimes\<close> and \<open>total_lifetimes\<close> are handed by reference.
\<close>

definition Accumulate_level :: "'v world \<Rightarrow> device_ref \<Rightarrow> int \<Rightarrow> 'v frame \<Rightarrow> 'v frame step" where
  "Accumulate_level w stats grid_size st =
     (case invoke w (Accumulate stats grid_size) (en st) of
        (r, e) \<Rightarrow>
          (case accumulated w (trace e) (total_runtimes e, total_lifetimes e, total_queued e) of
             (rt, lt, tq) \<Rightarrow>
               (let st' = st\<lparr>en := e\<lparr>total_runtimes := rt, total_lifetimes := lt\<rparr>, retval := r\<rparr>
                in if r \<noteq> cudaSuccess then Break st' else Continue st')))"

text \<open>Lines 422-455: the contraction launch and what follows it up to the throttle.\<close>

definition contract_phase :: "'a::len word search_cfg \<Rightarrow> 'a word frame \<Rightarrow> 'a word frame step" where
  "contract_phase cfg st =
     (case iteration (en st) of
        None \<Rightarrow> Fault
      | Some it \<Rightarrow>
          then_step
            (Continue (st\<lparr>en := launch (Launch_contract
               \<lparr> c_policy = ContractPolicy cfg, c_grid_size = contract_grid_size cfg,
                 c_threads = C_THREADS (ContractPolicy cfg), c_src = cfg_src cfg,
                 c_iteration = it, c_num_elements = 0,
                 c_queue_index = queue_index st, c_steal_index = queue_index st,
                 c_num_gpus = 1,
                 c_max_vertex_frontier = frontier_elements_0 (cfg_problem cfg),
                 c_device_args =
                   [ref_d_done, d_keys 1, d_keys 0, d_values 1, d_labels, d_visited_mask,
                    work_progress, ref_contract_kernel_stats] \<rparr>) (en st)\<rparr>))
            (\<lambda>st. then_step (debug_sync (cfg_world cfg) st)
            (\<lambda>st. let st = st\<lparr>queue_index := queue_index st + 1\<rparr>
                  in if cfg_INSTRUMENT cfg
                     then then_step (GetQueueLength_contract (cfg_world cfg) st)
                            (Accumulate_level (cfg_world cfg) ref_contract_kernel_stats
                               (contract_grid_size cfg))
                     else Continue st)))"

text \<open>Lines 457-464: record the throttle event or wait for it, by the parity of the level.\<close>

definition throttle :: "'a::len word search_cfg \<Rightarrow> 'a word frame \<Rightarrow> 'a word frame step" where
  "throttle cfg st =
     (case iteration (en st) of
        None \<Rightarrow> Fault
      | Some it \<Rightarrow>
          if it AND 1 \<noteq> 0
          then attempt (cfg_world cfg) EventRecord_throttle st
          else attempt (cfg_world cfg) EventSynchronize_throttle st)"

text \<open>Line 465: \<open>if (done[0]) break;\<close>, a read of the word the kernels write.\<close>

definition check_done :: "'v search_cfg \<Rightarrow> 'v frame \<Rightarrow> 'v frame step" where
  "check_done cfg st =
     (case done_host (en st) of
        None \<Rightarrow> Fault
      | Some _ \<Rightarrow>
          (let h = trace (en st) @ [Read_done];
               d = device_done (cfg_world cfg) h;
               st' = st\<lparr>en := (en st)\<lparr>trace := h, done_host := Some d\<rparr>\<rparr>
           in if d \<noteq> 0 then Break st' else Continue st'))"

text \<open>Lines 467-499: the expansion launch, the two increments, the statistics.\<close>

definition expand_phase :: "'a::len word search_cfg \<Rightarrow> 'a word frame \<Rightarrow> 'a word frame step" where
  "expand_phase cfg st =
     then_step
       (Continue (st\<lparr>en := launch (Launch_expand
          \<lparr> e_policy = ExpandPolicy cfg, e_grid_size = expand_grid_size cfg,
            e_threads = THREADS (ExpandPolicy cfg),
            e_queue_index = queue_index st, e_steal_index = queue_index st,
            e_num_gpus = 1,
            e_max_edge_frontier = frontier_elements_1 (cfg_problem cfg),
            e_device_args =
              [ref_d_done, d_keys 0, d_keys 1, d_values 1, d_column_indices, d_row_offsets,
               work_progress, ref_expand_kernel_stats] \<rparr>) (en st)\<rparr>))
       (\<lambda>st. then_step (debug_sync (cfg_world cfg) st)
       (\<lambda>st. case iteration (en st) of
           None \<Rightarrow> Fault
         | Some it \<Rightarrow>
             (let st = st\<lparr>queue_index := queue_index st + 1,
                          en := (en st)\<lparr>iteration := Some (it + 1)\<rparr>\<rparr>
              in if cfg_INSTRUMENT cfg
                 then then_step (GetQueueLength_expand (cfg_world cfg) st)
                   (\<lambda>st. Accumulate_level (cfg_world cfg) ref_expand_kernel_stats
                           (expand_grid_size cfg)
                           (st\<lparr>en := (en st)\<lparr>total_queued :=
                                  total_queued (en st) + queue_length st\<rparr>\<rparr>))
                 else Continue st)))"

text \<open>The body of \<open>while (true)\<close>: one BFS level.\<close>

definition level :: "'a::len word search_cfg \<Rightarrow> 'a word frame \<Rightarrow> 'a word frame step" where
  "level cfg st =
     then_step (contract_phase cfg st) (\<lambda>st.
     then_step (throttle cfg st) (\<lambda>st.
     then_step (check_done cfg st) (expand_phase cfg)))"

text \<open>
  The loop has no bound of its own: it runs until a \<open>break\<close>. \<open>run_levels n\<close> runs
  at most \<open>n\<close> levels; \<open>Continue\<close> then says that the loop is still running.
\<close>

fun run_levels :: "nat \<Rightarrow> 'a::len word search_cfg \<Rightarrow> 'a word frame \<Rightarrow> 'a word frame step" where
  "run_levels 0 cfg st = Continue st"
| "run_levels (Suc n) cfg st = then_step (level cfg st) (run_levels n cfg)"

text \<open>What a member function hands back: its value, or a read through a null pointer.\<close>

datatype 'a outcome = Returned 'a | NullDereference

text \<open>
  \<open>EnactIterativeSearch<ExpandPolicy, ContractPolicy, CsrProblem>\<close>, lines 376-506.
  \<open>None\<close>: the loop has not left within \<open>fuel\<close> levels. The local \<open>queue_length\<close>
  is not initialised in the code and is written before it is read; it starts as 0 here.
\<close>

definition EnactIterativeSearch_policy ::
  "nat \<Rightarrow> bool \<Rightarrow> 'a::len word world \<Rightarrow> expand_policy \<Rightarrow> contract_policy \<Rightarrow> csr_problem
     \<Rightarrow> 'a word \<Rightarrow> int \<Rightarrow> 'a word enactor \<Rightarrow> (cudaError_t \<times> 'a word enactor) outcome option" where
  "EnactIterativeSearch_policy fuel instrument w ExpandPol ContractPol csr src max_grid_size s =
     (let expand_occupancy = CTA_OCCUPANCY ExpandPol;
          expand_grid = MaxGridSize w expand_occupancy max_grid_size;
          contract_occupancy = C_CTA_OCCUPANCY ContractPol;
          contract_grid = MaxGridSize w contract_occupancy max_grid_size
      in case Setup w csr expand_grid contract_grid s of
           (r, s1) \<Rightarrow>
             if r \<noteq> cudaSuccess then Some (Returned (r, s1))
             else
               (case run_levels fuel
                       \<lparr> cfg_INSTRUMENT = instrument, cfg_world = w, ExpandPolicy = ExpandPol,
                         ContractPolicy = ContractPol, cfg_problem = csr, cfg_src = src,
                         expand_grid_size = expand_grid, contract_grid_size = contract_grid \<rparr>
                       \<lparr> en = s1, retval = r, queue_index = 0, queue_length = 0 \<rparr> of
                  Continue st \<Rightarrow> None
                | Break st \<Rightarrow> Some (Returned (retval st, en st))
                | Fault \<Rightarrow> Some NullDereference))"

text \<open>The expansion and contraction configurations of lines 524-558.\<close>

definition expand_policy_200 :: "bool \<Rightarrow> expand_policy" where
  "expand_policy_200 instrument =
     \<lparr> CUDA_ARCH = 200, INSTRUMENT = instrument, SATURATION_QUIT = 0, CTA_OCCUPANCY = 8,
       LOG_THREADS = 7, LOG_LOAD_VEC_SIZE = 0, LOG_LOADS_PER_TILE = 0,
       LOG_RAKING_THREADS = 5, QUEUE_READ_MODIFIER = cg, COLUMN_READ_MODIFIER = NONE,
       ROW_OFFSET_ALIGNED_READ_MODIFIER = cg, ROW_OFFSET_UNALIGNED_READ_MODIFIER = NONE,
       QUEUE_WRITE_MODIFIER = cg, WORK_STEALING = True, WARP_GATHER_THRESHOLD = 32,
       CTA_GATHER_THRESHOLD = 128 * 4, LOG_SCHEDULE_GRANULARITY = 6 \<rparr>"

definition contract_policy_200 :: "bool \<Rightarrow> contract_policy" where
  "contract_policy_200 instrument =
     \<lparr> C_CUDA_ARCH = 200, C_INSTRUMENT = instrument, DEQUEUE_PROBLEM_SIZE = True,
       C_CTA_OCCUPANCY = 8, C_LOG_THREADS = 7, C_LOG_LOAD_VEC_SIZE = 0,
       C_LOG_LOADS_PER_TILE = 2, C_LOG_RAKING_THREADS = 5, C_QUEUE_READ_MODIFIER = NONE,
       C_QUEUE_WRITE_MODIFIER = NONE, C_WORK_STEALING = False,
       C_LOG_SCHEDULE_GRANULARITY = 6 \<rparr>"

text \<open>\<open>EnactIterativeSearch<CsrProblem>\<close>, lines 515-610.\<close>

definition EnactIterativeSearch ::
  "nat \<Rightarrow> bool \<Rightarrow> 'a::len word world \<Rightarrow> csr_problem \<Rightarrow> 'a word \<Rightarrow> int \<Rightarrow> 'a word enactor
     \<Rightarrow> (cudaError_t \<times> 'a word enactor) outcome option" where
  "EnactIterativeSearch fuel instrument w csr src max_grid_size s =
     (if 200 \<le> device_sm_version s
      then EnactIterativeSearch_policy fuel instrument w
             (expand_policy_200 instrument) (contract_policy_200 instrument) csr src max_grid_size s
      else Some (Returned (cudaErrorInvalidConfiguration, s)))"

subsection \<open>Statistics\<close>

text \<open>
  The arithmetic of \<open>double\<close> that \<open>GetStatistics\<close> uses: the conversion of an
  \<open>unsigned long long\<close>, the division, and \<open>0.0\<close>. IEEE arithmetic is not defined
  here; the three are parameters.
\<close>

record 'd double_ops =
  to_double :: "64 word \<Rightarrow> 'd"
  div_double :: "'d \<Rightarrow> 'd \<Rightarrow> 'd"
  zero_double :: 'd

text \<open>
  \<open>GetStatistics<VertexId>\<close>, lines 231-245: \<open>(total_queued, search_depth, avg_duty)\<close>.
  The status of \<open>cudaThreadSynchronize\<close> is not looked at. \<open>iteration[0] - 1\<close> is
  computed in \<open>long long\<close> and converted to \<open>VertexId\<close>.
\<close>

definition GetStatistics ::
  "'d double_ops \<Rightarrow> 'v enactor \<Rightarrow> ((64 word \<times> 'a::len word \<times> 'd) \<times> 'v enactor) outcome" where
  "GetStatistics fp s =
     (let s1 = s\<lparr>trace := trace s @ [ThreadSynchronize]\<rparr>
      in case iteration s1 of
           None \<Rightarrow> NullDereference
         | Some it \<Rightarrow>
             Returned
               ((total_queued s1,
                 scast (it - 1),
                 if 0 < total_lifetimes s1
                 then div_double fp (to_double fp (total_runtimes s1))
                        (to_double fp (total_lifetimes s1))
                 else zero_double fp),
                s1))"

subsection \<open>Predicates on states and calls\<close>

text \<open>
  The long-lived objects of the enactor are allocated: the two host-mapped words, the
  barrier state and the two statistics lifetimes.
\<close>

definition long_lived_allocated :: "'v enactor \<Rightarrow> bool" where
  "long_lived_allocated s =
     (done_host s \<noteq> None \<and> iteration s \<noteq> None \<and> global_barrier s \<noteq> None
      \<and> expand_kernel_stats s \<noteq> None \<and> contract_kernel_stats s \<noteq> None)"

text \<open>The kernel launches among the calls.\<close>

fun is_dispatch :: "'v call \<Rightarrow> bool" where
  "is_dispatch (Launch_fused a) = True"
| "is_dispatch (Launch_contract a) = True"
| "is_dispatch (Launch_expand a) = True"
| "is_dispatch c = False"

text \<open>
  \<open>quiet w s r s'\<close>: from \<open>s\<close> to \<open>s'\<close> the trace has grown by calls that are no
  kernel launch; when the status \<open>r\<close> is a failure, it is the status of the last call
  made; the members of the base class are as they were.
\<close>

definition quiet :: "'v world \<Rightarrow> 'v enactor \<Rightarrow> cudaError_t \<Rightarrow> 'v enactor \<Rightarrow> bool" where
  "quiet w s r s' =
     (\<exists>ev. trace s' = trace s @ ev \<and> list_all (\<lambda>c. \<not> is_dispatch c) ev
           \<and> (r \<noteq> cudaSuccess \<longrightarrow> ev \<noteq> [] \<and> status w (trace s') = r)
           \<and> DEBUG s' = DEBUG s \<and> device_sm_version s' = device_sm_version s)"

text \<open>The two texture bindings among the calls.\<close>

fun is_bind :: "'v call \<Rightarrow> bool" where
  "is_bind (BindTexture_bitmask n) = True"
| "is_bind (BindTexture_row_offsets n) = True"
| "is_bind c = False"

text \<open>
  \<open>before_reset w s s'\<close>: from \<open>s\<close> to \<open>s'\<close> nothing of lines 159-187 has
  happened. The three totals are as they were; each of the two host-mapped words is as it
  was, or has just been allocated and holds what fresh memory holds; the trace has grown
  by calls that bind no texture.
\<close>

definition before_reset :: "'v world \<Rightarrow> 'v enactor \<Rightarrow> 'v enactor \<Rightarrow> bool" where
  "before_reset w s s' =
     (total_runtimes s' = total_runtimes s \<and> total_lifetimes s' = total_lifetimes s
      \<and> total_queued s' = total_queued s
      \<and> (iteration s' = iteration s
           \<or> iteration s = None \<and> iteration s' = Some (uninit_iteration w))
      \<and> (done_host s' = done_host s
           \<or> done_host s = None \<and> done_host s' = Some (uninit_done w))
      \<and> (\<exists>ev. trace s' = trace s @ ev \<and> list_all (\<lambda>c. \<not> is_bind c) ev))"

text \<open>
  From \<open>a\<close> to \<open>b\<close> the trace has grown, and \<open>iteration\<close> has stayed non-null
  if it was.
\<close>

definition keeps_iteration :: "'v enactor \<Rightarrow> 'v enactor \<Rightarrow> bool" where
  "keeps_iteration a b =
     ((iteration a \<noteq> None \<longrightarrow> iteration b \<noteq> None) \<and> (\<exists>ev. trace b = trace a @ ev))"

text \<open>
  A call is no contraction launch, or it is one that passes 0 for \<open>num_elements\<close>,
  the policy of the search, the queue index also as steal index, and the work-progress
  counters.
\<close>

definition count_unused :: "'v search_cfg \<Rightarrow> 'v call \<Rightarrow> bool" where
  "count_unused cfg c =
     (case c of
        Launch_contract a \<Rightarrow>
          c_num_elements a = 0 \<and> c_policy a = ContractPolicy cfg
          \<and> c_steal_index a = c_queue_index a \<and> work_progress \<in> set (c_device_args a)
      | _ \<Rightarrow> True)"

text \<open>From frame \<open>a\<close> to frame \<open>b\<close> the trace has grown by such calls.\<close>

definition grows :: "'v search_cfg \<Rightarrow> 'v frame \<Rightarrow> 'v frame \<Rightarrow> bool" where
  "grows cfg a b = (\<exists>ev. trace (en b) = trace (en a) @ ev \<and> list_all (count_unused cfg) ev)"

text \<open>The arguments of the contraction launches among the calls, in order.\<close>

fun contract_launches :: "'v call list \<Rightarrow> 'v contract_args list" where
  "contract_launches [] = []"
| "contract_launches (Launch_contract a # cs) = a # contract_launches cs"
| "contract_launches (c # cs) = contract_launches cs"

text \<open>The launches are handed the queue indices \<open>q\<close>, \<open>q + 2\<close>, \<open>q + 4\<close>, ...\<close>

fun consecutive :: "'a::len word \<Rightarrow> 'a word contract_args list \<Rightarrow> bool" where
  "consecutive q [] = True"
| "consecutive q (a # as) = (c_queue_index a = q \<and> consecutive (q + 2) as)"

text \<open>From frame \<open>a\<close> to frame \<open>b\<close> the trace has grown by calls that launch no contraction.\<close>

definition no_contraction :: "'v frame \<Rightarrow> 'v frame \<Rightarrow> bool" where
  "no_contraction a b = (\<exists>ev. trace (en b) = trace (en a) @ ev \<and> contract_launches ev = [])"

text \<open>
  Modelled from the spec: the contraction kernel
  (\<open>two_phase::contract_atomic::Kernel\<close>) is not among the source files. Section 4.2
  of the specification: Contract "consults the current device-side frontier length
  rather than a host-supplied count"; section 3: the queue index is "used to index into
  an external atomic-length-counter table maintained by the work-progress collaborator";
  section 6: the work-progress service "maintains atomic counters keyed by queue index".
  The length of the frontier a contraction launch works on is the counter that the table
  \<open>counters\<close> holds under the queue index the launch is handed; the argument
  \<open>num_elements\<close> has no part in it.
\<close>

definition contract_frontier_length :: "('v \<Rightarrow> 64 word) \<Rightarrow> 'v contract_args \<Rightarrow> 64 word" where
  "contract_frontier_length counters a = counters (c_queue_index a)"

subsection \<open>Worlds to run the enactor in\<close>

text \<open>
  Modelled from the spec: \<open>EnactorBase::MaxGridSize\<close> is not among the source files.
  Section 6 of the specification: the base enactor supplies "a default group-count
  computation given desired occupancy and an optional cap": the cap when one is given
  (\<open>max_grid_size > 0\<close>), else every multiprocessor filled to the occupancy.
\<close>

definition default_MaxGridSize :: "int \<Rightarrow> int \<Rightarrow> int \<Rightarrow> int" where
  "default_MaxGridSize multiProcessorCount cta_occupancy max_grid_size =
     (if max_grid_size \<le> 0 then multiProcessorCount * cta_occupancy else max_grid_size)"

text \<open>
  Modelled from the spec: the number of worker groups the device runs concurrently
  resident ("max concurrent occupancy for the chosen tuning policy", section 4.3): the
  occupancy of the policy on each multiprocessor.
\<close>

definition max_resident_grid :: "int \<Rightarrow> expand_policy \<Rightarrow> int" where
  "max_resident_grid multiProcessorCount pol = multiProcessorCount * CTA_OCCUPANCY pol"

fun is_Launch_contract :: "'v call \<Rightarrow> bool" where
  "is_Launch_contract (Launch_contract a) = True"
| "is_Launch_contract c = False"

fun is_Launch_expand :: "'v call \<Rightarrow> bool" where
  "is_Launch_expand (Launch_expand a) = True"
| "is_Launch_expand c = False"

fun is_Launch_fused :: "'v call \<Rightarrow> bool" where
  "is_Launch_fused (Launch_fused a) = True"
| "is_Launch_fused c = False"

text \<open>
  A device with 14 multiprocessors. A call answers \<open>answer c\<close>, whatever came before;
  a kernel sets \<open>done[0]\<close> in the \<open>depth\<close>-th contraction; the fused kernel leaves
  \<open>depth\<close> in \<open>iteration[0]\<close>; every queue holds 5 elements; every \<open>Accumulate\<close>
  adds 3 busy cycles, 4 elapsed cycles and 5 queued elements.
\<close>

definition sample_world :: "('v call \<Rightarrow> cudaError_t) \<Rightarrow> nat \<Rightarrow> 'v world" where
  "sample_world answer depth =
     \<lparr> status = (\<lambda>h. answer (last h)),
       queue_length_out = (\<lambda>h. 5),
       accumulated = (\<lambda>h (rt, lt, tq). (rt + 3, lt + 4, tq + 5)),
       device_done = (\<lambda>h. if depth \<le> length (filter is_Launch_contract h) then 1 else 0),
       device_iteration = (\<lambda>h. of_nat depth),
       uninit_done = 7,
       uninit_iteration = 9,
       MaxGridSize = default_MaxGridSize 14 \<rparr>"

definition all_succeed :: "'v call \<Rightarrow> cudaError_t" where
  "all_succeed c = cudaSuccess"

definition fails :: "'v call \<Rightarrow> nat \<Rightarrow> 'v call \<Rightarrow> cudaError_t" where
  "fails c code c' = (if c' = c then cudaErrorOther code else cudaSuccess)"

definition sample_problem :: csr_problem where
  "sample_problem =
     \<lparr> slice_nodes = 5, frontier_elements_0 = 8, frontier_elements_1 = 16, sizeof_SizeT = 4 \<rparr>"

text \<open>
  What is in scope in the loop of a search in such a world (112 groups for either
  kernel), and a frame at the head of the loop body: an enactor after \<open>Setup\<close> whose
  counter holds \<open>it\<close>, with the trace started afresh, and the queue index \<open>q\<close>.
\<close>

definition sample_cfg :: "bool \<Rightarrow> ('a::len word call \<Rightarrow> cudaError_t) \<Rightarrow> nat \<Rightarrow> 'a word search_cfg" where
  "sample_cfg instrument answer depth =
     \<lparr> cfg_INSTRUMENT = instrument, cfg_world = sample_world answer depth,
       ExpandPolicy = expand_policy_200 instrument,
       ContractPolicy = contract_policy_200 instrument,
       cfg_problem = sample_problem, cfg_src = 0,
       expand_grid_size = 112, contract_grid_size = 112 \<rparr>"

definition sample_frame :: "bool \<Rightarrow> 64 word \<Rightarrow> 'v \<Rightarrow> 'v frame" where
  "sample_frame debug it q =
     \<lparr> en = \<lparr> DEBUG = debug, device_sm_version = 200,
              expand_kernel_stats = Some 112, contract_kernel_stats = Some 112,
              total_runtimes = 0, total_lifetimes = 0, total_queued = 0,
              done_host = Some 0, d_done = True, throttle_event = True,
              global_barrier = Some 112, iteration = Some it, d_iteration = True,
              trace = [] \<rparr>,
       retval = cudaSuccess, queue_index = q, queue_length = 0 \<rparr>"

text \<open>The arithmetic of \<open>double\<close> read as that of the rationals, to run \<open>GetStatistics\<close>.\<close>

definition rat_ops :: "rat double_ops" where
  "rat_ops = \<lparr> to_double = (\<lambda>x. of_nat (unat x)), div_double = (\<lambda>a b. a / b), zero_double = 0 \<rparr>"

section \<open>Random graph construction (BuildRandomGraph)\<close>






section \<open>Properties of the enactor\<close>

text \<open>The definitions to unfold when the enactor is run on given inputs.\<close>

lemmas run_defs =
  EnactIterativeSearch_def EnactIterativeSearch_policy_def EnactFusedSearch_def
  EnactFusedSearch_policy_def launch_fused_def Accumulate_fused_def
  level_def contract_phase_def throttle_def check_done_def expand_phase_def
  attempt_def debug_sync_def GetQueueLength_contract_def GetQueueLength_expand_def
  Accumulate_level_def launch_def
  Setup_def init_done_def init_iteration_def GlobalBarrierLifetime_Setup_def
  expand_kernel_stats_Setup_def contract_kernel_stats_Setup_def reset_statistics_def
  bind_bitmask_def bind_row_offsets_def bitmask_bytes_def row_offsets_bytes_def
  signed_divide_int_def or_break_def invoke_def Let_def
  sample_world_def all_succeed_def fails_def sample_problem_def EnactorTwoPhase_def
  sample_cfg_def sample_frame_def
  default_MaxGridSize_def expand_policy_200_def contract_policy_200_def fused_policy_200_def
  THREADS_def C_THREADS_def

subsection \<open>Hardware generations below the tuned threshold\<close>

text \<open>
  Claim C2. On a device whose \<open>device_sm_version\<close> is below 200, both
  \<open>EnactIterativeSearch\<close> and \<open>EnactFusedSearch\<close> return
  \<open>cudaErrorInvalidConfiguration\<close> and leave the enactor as it was: its trace has
  gained no call, so nothing was set up and nothing dispatched, and no other
  configuration was tried.
\<close>

theorem untuned_architecture_rejected:
  assumes "device_sm_version s < 200"
  shows "EnactIterativeSearch fuel instrument w csr src max_grid_size s
           = Some (Returned (cudaErrorInvalidConfiguration, s))
       \<and> EnactFusedSearch instrument w csr src max_grid_size s
           = (cudaErrorInvalidConfiguration, s)"
  using assms by (simp add: EnactIterativeSearch_def EnactFusedSearch_def)

theorem untuned_architecture_rejected_witness:
  "device_sm_version (EnactorTwoPhase 130 0 0 False :: 32 word enactor) < 200
   \<and> EnactIterativeSearch 5 True (sample_world all_succeed 2) sample_problem 0 0
        (EnactorTwoPhase 130 0 0 False :: 32 word enactor)
       = Some (Returned (cudaErrorInvalidConfiguration, EnactorTwoPhase 130 0 0 False))
   \<and> EnactFusedSearch True (sample_world all_succeed 2) sample_problem 0 0
        (EnactorTwoPhase 130 0 0 False :: 32 word enactor)
       = (cudaErrorInvalidConfiguration, EnactorTwoPhase 130 0 0 False)
   \<and> trace (EnactorTwoPhase 130 0 0 False :: 32 word enactor) = []"
proof -
  have h: "device_sm_version (EnactorTwoPhase 130 0 0 False :: 32 word enactor) < 200"
    by (simp add: EnactorTwoPhase_def)
  show ?thesis
    using h untuned_architecture_rejected
            [OF h, of 5 True "sample_world all_succeed 2" sample_problem 0 0]
    by (simp add: EnactorTwoPhase_def)
qed

subsection \<open>Statistics of the last search\<close>

text \<open>
  Narrowing \<open>long long\<close> to \<open>VertexId\<close> commutes with subtracting one; and where
  \<open>iteration[0] - 1\<close> is a value of \<open>VertexId\<close>, the conversion keeps it.
\<close>

lemma scast_minus_one:
  fixes it :: "64 word"
  assumes "LENGTH('a::len) \<le> 64"
  shows "(scast (it - 1) :: 'a word) = scast it - 1"
proof -
  have "(word_of_int (sint (it - 1)) :: 64 word) = word_of_int (sint it - 1)"
    by simp
  then have "take_bit 64 (sint (it - 1)) = take_bit 64 (sint it - 1)"
    by (simp only: word_of_int_eq_iff) simp
  then have "take_bit LENGTH('a) (sint (it - 1)) = take_bit LENGTH('a) (sint it - 1)"
    using assms by (rule take_bit_tightened)
  then have "(word_of_int (sint (it - 1)) :: 'a word) = word_of_int (sint it - 1)"
    by (simp only: word_of_int_eq_iff)
  also have "\<dots> = word_of_int (sint it) - 1"
    by (simp only: of_int_diff of_int_1)
  finally show ?thesis
    by (simp only: scast_eq)
qed

lemma sint_scast_minus_one:
  fixes it :: "64 word"
  assumes len: "LENGTH('a::len) \<le> 64"
      and lo: "- (2 ^ (LENGTH('a) - 1)) \<le> sint it - 1"
      and hi: "sint it - 1 < 2 ^ (LENGTH('a) - 1)"
  shows "sint (scast (it - 1) :: 'a word) = sint it - 1"
proof -
  have pw: "(2::int) ^ (LENGTH('a) - 1) \<le> 2 ^ 63"
    using len by (intro power_increasing) simp_all
  have "sint (it - 1) = signed_take_bit 63 (sint it - 1)"
    by (simp add: sint_word_ariths)
  also have "\<dots> = sint it - 1"
    using lo hi pw by (intro signed_take_bit_int_eq_self) linarith+
  finally have eq: "sint (it - 1) = sint it - 1" .
  have "sint (scast (it - 1) :: 'a word) = signed_take_bit (LENGTH('a) - 1) (sint (it - 1))"
    by (simp add: signed_scast_eq)
  also have "\<dots> = sint it - 1"
    unfolding eq using lo hi by (rule signed_take_bit_int_eq_self)
  finally show ?thesis .
qed

text \<open>
  Claim C3. With an allocated iteration counter holding \<open>it\<close>, \<open>GetStatistics\<close>
  returns \<open>total_queued\<close>, a \<open>search_depth\<close> equal to the counter minus one (in the
  arithmetic of \<open>VertexId\<close>, and as an integer whenever that integer is a
  \<open>VertexId\<close>), and an \<open>avg_duty\<close> that is \<open>total_runtimes\<close> divided by
  \<open>total_lifetimes\<close> in \<open>double\<close> when \<open>total_lifetimes\<close> is positive and
  \<open>0.0\<close> when it is zero.
\<close>

theorem GetStatistics_values:
  fixes s :: "'v enactor" and it :: "64 word"
  assumes "iteration s = Some it" and "LENGTH('a::len) \<le> 64"
  shows "\<exists>(search_depth :: 'a word) avg_duty.
           GetStatistics fp s
             = Returned ((total_queued s, search_depth, avg_duty),
                         s\<lparr>trace := trace s @ [ThreadSynchronize]\<rparr>)
         \<and> search_depth = scast it - 1
         \<and> (- (2 ^ (LENGTH('a) - 1)) \<le> sint it - 1 \<and> sint it - 1 < 2 ^ (LENGTH('a) - 1)
              \<longrightarrow> sint search_depth = sint it - 1)
         \<and> (0 < total_lifetimes s
              \<longrightarrow> avg_duty = div_double fp (to_double fp (total_runtimes s))
                                         (to_double fp (total_lifetimes s)))
         \<and> (total_lifetimes s = 0 \<longrightarrow> avg_duty = zero_double fp)"
proof -
  let ?depth = "scast (it - 1) :: 'a word"
  let ?duty = "if 0 < total_lifetimes s
               then div_double fp (to_double fp (total_runtimes s))
                      (to_double fp (total_lifetimes s))
               else zero_double fp"
  have ret: "GetStatistics fp s
               = Returned ((total_queued s, ?depth, ?duty),
                           s\<lparr>trace := trace s @ [ThreadSynchronize]\<rparr>)"
    using assms(1) by (simp add: GetStatistics_def Let_def)
  have modular: "?depth = scast it - 1"
    using assms(2) by (rule scast_minus_one)
  have exact: "- (2 ^ (LENGTH('a) - 1)) \<le> sint it - 1 \<and> sint it - 1 < 2 ^ (LENGTH('a) - 1)
                 \<longrightarrow> sint ?depth = sint it - 1"
    using sint_scast_minus_one [OF assms(2)] by blast
  have busy: "0 < total_lifetimes s
                \<longrightarrow> ?duty = div_double fp (to_double fp (total_runtimes s))
                                      (to_double fp (total_lifetimes s))"
    by simp
  have idle: "total_lifetimes s = 0 \<longrightarrow> ?duty = zero_double fp"
    by simp
  from ret modular exact busy idle show ?thesis
    by blast
qed


theorem GetStatistics_values_witness:
  "iteration ((EnactorTwoPhase 200 6 8 False :: 32 word enactor)\<lparr>iteration := Some 4\<rparr>) = Some 4
   \<and> LENGTH(32) \<le> (64::nat)
   \<and> GetStatistics rat_ops ((EnactorTwoPhase 200 6 8 False :: 32 word enactor)\<lparr>iteration := Some 4\<rparr>)
       = Returned ((0, 3 :: 32 word, 3 / 4),
           (EnactorTwoPhase 200 6 8 False)\<lparr>iteration := Some 4, trace := [ThreadSynchronize]\<rparr>)
   \<and> GetStatistics rat_ops ((EnactorTwoPhase 200 6 0 False :: 32 word enactor)\<lparr>iteration := Some 1\<rparr>)
       = Returned ((0, 0 :: 32 word, 0),
           (EnactorTwoPhase 200 6 0 False)\<lparr>iteration := Some 1, trace := [ThreadSynchronize]\<rparr>)"
proof -
  let ?s = "(EnactorTwoPhase 200 6 8 False :: 32 word enactor)\<lparr>iteration := Some 4\<rparr>"
  let ?z = "(EnactorTwoPhase 200 6 0 False :: 32 word enactor)\<lparr>iteration := Some 1\<rparr>"
  have h1: "iteration ?s = Some 4" by (simp add: EnactorTwoPhase_def)
  have h2: "iteration ?z = Some 1" by (simp add: EnactorTwoPhase_def)
  have len: "LENGTH(32) \<le> (64::nat)" by simp
  from GetStatistics_values [OF h1 len, of rat_ops] GetStatistics_values [OF h2 len, of rat_ops]
  show ?thesis
    using h1 by (auto simp add: EnactorTwoPhase_def rat_ops_def)
qed

subsection \<open>Setup\<close>

text \<open>The shape of \<open>if (retval = op) break;\<close>.\<close>

lemma or_break_cases:
  assumes "or_break x rest = (r, s')"
  obtains (stop) "x = (r, s')" "r \<noteq> cudaSuccess"
        | (go) s1 where "x = (cudaSuccess, s1)" "rest s1 = (r, s')"
  using assms by (cases x) (auto simp add: or_break_def split: if_splits)

lemma or_break_success:
  assumes "or_break x rest = (cudaSuccess, s')"
  obtains s1 where "x = (cudaSuccess, s1)" "rest s1 = (cudaSuccess, s')"
  using assms by (cases x) (auto simp add: or_break_def split: if_splits)

text \<open>Every stage of \<open>Setup\<close> is quiet, and so is \<open>Setup\<close>.\<close>

lemma quiet_refl: "quiet w s cudaSuccess s"
  by (simp add: quiet_def)

lemma quiet_trans:
  assumes "quiet w s cudaSuccess s1" and "quiet w s1 r s2"
  shows "quiet w s r s2"
proof -
  from assms(1) obtain ev1 where 1: "trace s1 = trace s @ ev1" "list_all (\<lambda>c. \<not> is_dispatch c) ev1"
    "DEBUG s1 = DEBUG s" "device_sm_version s1 = device_sm_version s"
    by (auto simp add: quiet_def)
  from assms(2) obtain ev2 where 2: "trace s2 = trace s1 @ ev2" "list_all (\<lambda>c. \<not> is_dispatch c) ev2"
    "r \<noteq> cudaSuccess \<longrightarrow> ev2 \<noteq> [] \<and> status w (trace s2) = r"
    "DEBUG s2 = DEBUG s1" "device_sm_version s2 = device_sm_version s1"
    by (auto simp add: quiet_def)
  show ?thesis
    unfolding quiet_def
    by (rule exI [of _ "ev1 @ ev2"]) (use 1 2 in simp)
qed

lemma quiet_or_break:
  assumes x: "\<And>r1 s1. x = (r1, s1) \<Longrightarrow> quiet w s r1 s1"
      and rest: "\<And>s1 r2 s2. rest s1 = (r2, s2) \<Longrightarrow> quiet w s1 r2 s2"
      and eq: "or_break x rest = (r, s')"
  shows "quiet w s r s'"
  using eq
proof (cases rule: or_break_cases)
  case stop
  then show ?thesis using x by simp
next
  case (go s1)
  then show ?thesis using x rest quiet_trans by blast
qed

lemma quiet_guarded:
  assumes "(case invoke w c s of (r, s1) \<Rightarrow> (r, if r = cudaSuccess then upd s1 else s1)) = (r', s')"
      and "\<not> is_dispatch c"
      and "\<And>t. trace (upd t) = trace t \<and> DEBUG (upd t) = DEBUG t
                 \<and> device_sm_version (upd t) = device_sm_version t"
  shows "quiet w s r' s'"
  using assms by (auto simp add: quiet_def invoke_def Let_def split: if_splits)

lemma quiet_init_done:
  assumes "init_done w s = (r, s')"
  shows "quiet w s r s'"
proof (cases "done_host s")
  case None
  with assms show ?thesis
    unfolding init_done_def
    by (auto elim!: quiet_or_break [rotated 2] quiet_guarded)
next
  case (Some d)
  with assms show ?thesis
    by (simp add: init_done_def quiet_refl)
qed

lemma quiet_init_iteration:
  assumes "init_iteration w s = (r, s')"
  shows "quiet w s r s'"
proof (cases "iteration s")
  case None
  with assms show ?thesis
    unfolding init_iteration_def
    by (auto elim!: quiet_or_break [rotated 2] quiet_guarded)
next
  case (Some d)
  with assms show ?thesis
    by (simp add: init_iteration_def quiet_refl)
qed

lemma quiet_GlobalBarrierLifetime_Setup:
  assumes "GlobalBarrierLifetime_Setup w n s = (r, s')"
  shows "quiet w s r s'"
  using assms unfolding GlobalBarrierLifetime_Setup_def
  by (cases "global_barrier s") (auto elim!: quiet_guarded simp add: quiet_refl)

lemma quiet_expand_kernel_stats_Setup:
  assumes "expand_kernel_stats_Setup w n s = (r, s')"
  shows "quiet w s r s'"
  using assms unfolding expand_kernel_stats_Setup_def
  by (cases "expand_kernel_stats s") (auto elim!: quiet_guarded simp add: quiet_refl)

lemma quiet_contract_kernel_stats_Setup:
  assumes "contract_kernel_stats_Setup w n s = (r, s')"
  shows "quiet w s r s'"
  using assms unfolding contract_kernel_stats_Setup_def
  by (cases "contract_kernel_stats s") (auto elim!: quiet_guarded simp add: quiet_refl)

lemma quiet_bind_bitmask:
  assumes "bind_bitmask w csr (reset_statistics s) = (r, s')"
  shows "quiet w s r s'"
  using assms
  by (auto simp add: bind_bitmask_def reset_statistics_def quiet_def invoke_def Let_def)

lemma quiet_bind_row_offsets:
  assumes "bind_row_offsets w csr s = (r, s')"
  shows "quiet w s r s'"
  using assms
  by (auto simp add: bind_row_offsets_def quiet_def invoke_def Let_def)

lemma quiet_Setup:
  assumes "Setup w csr e_grid c_grid s = (r, s')"
  shows "quiet w s r s'"
  using assms unfolding Setup_def
  by (elim quiet_or_break [rotated 2])
     (erule quiet_init_done quiet_init_iteration quiet_GlobalBarrierLifetime_Setup
        quiet_expand_kernel_stats_Setup quiet_contract_kernel_stats_Setup
        quiet_bind_bitmask quiet_bind_row_offsets)+

text \<open>What each stage of a successful \<open>Setup\<close> leaves allocated.\<close>

lemma init_done_allocates:
  assumes "init_done w s = (cudaSuccess, s')"
  shows "done_host s' \<noteq> None \<and> iteration s' = iteration s
       \<and> global_barrier s' = global_barrier s
       \<and> expand_kernel_stats s' = expand_kernel_stats s
       \<and> contract_kernel_stats s' = contract_kernel_stats s
       \<and> (done_host s = None \<longrightarrow>
            trace s' = trace s @ [HostAlloc_done, HostGetDevicePointer_done,
                                  EventCreateWithFlags_throttle])"
  using assms
  by (cases "done_host s")
     (auto simp add: init_done_def or_break_def invoke_def Let_def split: if_splits)

lemma init_iteration_allocates:
  assumes "init_iteration w s = (cudaSuccess, s')"
  shows "iteration s' \<noteq> None \<and> done_host s' = done_host s
       \<and> global_barrier s' = global_barrier s
       \<and> expand_kernel_stats s' = expand_kernel_stats s
       \<and> contract_kernel_stats s' = contract_kernel_stats s
       \<and> (iteration s = None \<longrightarrow>
            trace s' = trace s @ [HostAlloc_iteration, HostGetDevicePointer_iteration])"
  using assms
  by (cases "iteration s")
     (auto simp add: init_iteration_def or_break_def invoke_def Let_def split: if_splits)

lemma GlobalBarrierLifetime_Setup_allocates:
  assumes "GlobalBarrierLifetime_Setup w n s = (cudaSuccess, s')"
  shows "global_barrier s' \<noteq> None \<and> done_host s' = done_host s
       \<and> iteration s' = iteration s
       \<and> expand_kernel_stats s' = expand_kernel_stats s
       \<and> contract_kernel_stats s' = contract_kernel_stats s
       \<and> (global_barrier s = None \<longrightarrow> trace s' = trace s @ [Alloc_global_barrier n])"
  using assms
  by (cases "global_barrier s")
     (auto simp add: GlobalBarrierLifetime_Setup_def invoke_def Let_def split: if_splits)

lemma expand_kernel_stats_Setup_allocates:
  assumes "expand_kernel_stats_Setup w n s = (cudaSuccess, s')"
  shows "expand_kernel_stats s' \<noteq> None \<and> done_host s' = done_host s
       \<and> iteration s' = iteration s
       \<and> global_barrier s' = global_barrier s
       \<and> contract_kernel_stats s' = contract_kernel_stats s
       \<and> (expand_kernel_stats s = None \<longrightarrow>
            trace s' = trace s @ [Alloc_kernel_stats ref_expand_kernel_stats n])"
  using assms
  by (cases "expand_kernel_stats s")
     (auto simp add: expand_kernel_stats_Setup_def invoke_def Let_def split: if_splits)

lemma contract_kernel_stats_Setup_allocates:
  assumes "contract_kernel_stats_Setup w n s = (cudaSuccess, s')"
  shows "contract_kernel_stats s' \<noteq> None \<and> done_host s' = done_host s
       \<and> iteration s' = iteration s
       \<and> global_barrier s' = global_barrier s
       \<and> expand_kernel_stats s' = expand_kernel_stats s
       \<and> (contract_kernel_stats s = None \<longrightarrow>
            trace s' = trace s @ [Alloc_kernel_stats ref_contract_kernel_stats n])"
  using assms
  by (cases "contract_kernel_stats s")
     (auto simp add: contract_kernel_stats_Setup_def invoke_def Let_def split: if_splits)

text \<open>The reset and the two bindings.\<close>

lemma binds_after_reset:
  assumes "bind_bitmask w csr (reset_statistics s) = (cudaSuccess, a)"
      and "bind_row_offsets w csr a = (r, s')"
      and "iteration s \<noteq> None" and "done_host s \<noteq> None"
  shows "s' = s\<lparr> iteration := Some 0, total_runtimes := 0, total_lifetimes := 0,
                total_queued := 0, done_host := Some 0,
                trace := trace s @ [BindTexture_bitmask (bitmask_bytes csr),
                                    BindTexture_row_offsets (row_offsets_bytes csr)] \<rparr>"
  using assms
  by (auto simp add: bind_bitmask_def bind_row_offsets_def reset_statistics_def invoke_def Let_def)

text \<open>A call of \<open>Setup\<close> that returns \<open>cudaSuccess\<close>.\<close>

lemma Setup_success:
  assumes "Setup w csr e_grid c_grid s = (cudaSuccess, s1)"
  shows "long_lived_allocated s1
       \<and> iteration s1 = Some 0 \<and> done_host s1 = Some 0
       \<and> total_runtimes s1 = 0 \<and> total_lifetimes s1 = 0 \<and> total_queued s1 = 0
       \<and> (\<exists>ev. trace s1 = trace s @ ev
                  @ [BindTexture_bitmask (bitmask_bytes csr),
                     BindTexture_row_offsets (row_offsets_bytes csr)])
       \<and> (done_host s = None \<and> iteration s = None \<and> global_barrier s = None
            \<and> expand_kernel_stats s = None \<and> contract_kernel_stats s = None
          \<longrightarrow> trace s1 = trace s @
                [HostAlloc_done, HostGetDevicePointer_done, EventCreateWithFlags_throttle,
                 HostAlloc_iteration, HostGetDevicePointer_iteration,
                 Alloc_global_barrier e_grid,
                 Alloc_kernel_stats ref_expand_kernel_stats e_grid,
                 Alloc_kernel_stats ref_contract_kernel_stats c_grid,
                 BindTexture_bitmask (bitmask_bytes csr),
                 BindTexture_row_offsets (row_offsets_bytes csr)])"
proof -
  from assms obtain a where a: "init_done w s = (cudaSuccess, a)"
    and ra: "or_break (init_iteration w a) (\<lambda>s.
               or_break (GlobalBarrierLifetime_Setup w e_grid s) (\<lambda>s.
               or_break (expand_kernel_stats_Setup w e_grid s) (\<lambda>s.
               or_break (contract_kernel_stats_Setup w c_grid s) (\<lambda>s.
               or_break (bind_bitmask w csr (reset_statistics s)) (\<lambda>s.
               bind_row_offsets w csr s))))) = (cudaSuccess, s1)"
    unfolding Setup_def by (rule or_break_success)
  from ra obtain b where b: "init_iteration w a = (cudaSuccess, b)"
    and rb: "or_break (GlobalBarrierLifetime_Setup w e_grid b) (\<lambda>s.
               or_break (expand_kernel_stats_Setup w e_grid s) (\<lambda>s.
               or_break (contract_kernel_stats_Setup w c_grid s) (\<lambda>s.
               or_break (bind_bitmask w csr (reset_statistics s)) (\<lambda>s.
               bind_row_offsets w csr s)))) = (cudaSuccess, s1)"
    by (rule or_break_success)
  from rb obtain c where c: "GlobalBarrierLifetime_Setup w e_grid b = (cudaSuccess, c)"
    and rc: "or_break (expand_kernel_stats_Setup w e_grid c) (\<lambda>s.
               or_break (contract_kernel_stats_Setup w c_grid s) (\<lambda>s.
               or_break (bind_bitmask w csr (reset_statistics s)) (\<lambda>s.
               bind_row_offsets w csr s))) = (cudaSuccess, s1)"
    by (rule or_break_success)
  from rc obtain d where d: "expand_kernel_stats_Setup w e_grid c = (cudaSuccess, d)"
    and rd: "or_break (contract_kernel_stats_Setup w c_grid d) (\<lambda>s.
               or_break (bind_bitmask w csr (reset_statistics s)) (\<lambda>s.
               bind_row_offsets w csr s)) = (cudaSuccess, s1)"
    by (rule or_break_success)
  from rd obtain e where e: "contract_kernel_stats_Setup w c_grid d = (cudaSuccess, e)"
    and re: "or_break (bind_bitmask w csr (reset_statistics e)) (\<lambda>s.
               bind_row_offsets w csr s) = (cudaSuccess, s1)"
    by (rule or_break_success)
  from re obtain f where f: "bind_bitmask w csr (reset_statistics e) = (cudaSuccess, f)"
    and g: "bind_row_offsets w csr f = (cudaSuccess, s1)"
    by (rule or_break_success)
  note alloc = init_done_allocates [OF a] init_iteration_allocates [OF b]
    GlobalBarrierLifetime_Setup_allocates [OF c] expand_kernel_stats_Setup_allocates [OF d]
    contract_kernel_stats_Setup_allocates [OF e]
  from alloc have "iteration e \<noteq> None" and "done_host e \<noteq> None"
    by simp_all
  note s1 = binds_after_reset [OF f g this]
  have "quiet w s cudaSuccess e"
    by (rule quiet_trans [OF quiet_init_done [OF a]
          quiet_trans [OF quiet_init_iteration [OF b]
          quiet_trans [OF quiet_GlobalBarrierLifetime_Setup [OF c]
          quiet_trans [OF quiet_expand_kernel_stats_Setup [OF d]
                          quiet_contract_kernel_stats_Setup [OF e]]]]])
  then obtain ev where ev: "trace e = trace s @ ev"
    by (auto simp add: quiet_def)
  have "long_lived_allocated s1"
    using alloc by (simp add: s1 long_lived_allocated_def)
  moreover have "\<exists>ev. trace s1 = trace s @ ev
                  @ [BindTexture_bitmask (bitmask_bytes csr),
                     BindTexture_row_offsets (row_offsets_bytes csr)]"
    using ev by (simp add: s1)
  moreover have "trace s1 = trace s @
                [HostAlloc_done, HostGetDevicePointer_done, EventCreateWithFlags_throttle,
                 HostAlloc_iteration, HostGetDevicePointer_iteration,
                 Alloc_global_barrier e_grid,
                 Alloc_kernel_stats ref_expand_kernel_stats e_grid,
                 Alloc_kernel_stats ref_contract_kernel_stats c_grid,
                 BindTexture_bitmask (bitmask_bytes csr),
                 BindTexture_row_offsets (row_offsets_bytes csr)]"
    if "done_host s = None \<and> iteration s = None \<and> global_barrier s = None
          \<and> expand_kernel_stats s = None \<and> contract_kernel_stats s = None"
    using that alloc by (simp add: s1)
  ultimately show ?thesis
    by (simp add: s1)
qed

text \<open>A call of \<open>Setup\<close> on an enactor whose long-lived objects are allocated.\<close>

lemma Setup_allocated:
  assumes "long_lived_allocated t"
  shows "Setup w csr e_grid c_grid t =
     (let h1 = trace t @ [BindTexture_bitmask (bitmask_bytes csr)];
          h2 = h1 @ [BindTexture_row_offsets (row_offsets_bytes csr)];
          t0 = t\<lparr>iteration := Some 0, total_runtimes := 0, total_lifetimes := 0,
                 total_queued := 0, done_host := Some 0\<rparr>
      in if status w h1 \<noteq> cudaSuccess then (status w h1, t0\<lparr>trace := h1\<rparr>)
         else (status w h2, t0\<lparr>trace := h2\<rparr>))"
  using assms
  by (auto simp add: long_lived_allocated_def Setup_def init_done_def init_iteration_def
        GlobalBarrierLifetime_Setup_def expand_kernel_stats_Setup_def
        contract_kernel_stats_Setup_def reset_statistics_def
        bind_bitmask_def bind_row_offsets_def or_break_def invoke_def Let_def)


text \<open>What \<open>Setup\<close> leaves alone as long as it has not reached line 159.\<close>

lemma before_reset_trans:
  assumes "before_reset w s s1" and "before_reset w s1 s2"
  shows "before_reset w s s2"
proof -
  from assms(1) obtain ev1 where 1: "trace s1 = trace s @ ev1" "list_all (\<lambda>c. \<not> is_bind c) ev1"
    by (auto simp add: before_reset_def)
  from assms(2) obtain ev2 where 2: "trace s2 = trace s1 @ ev2" "list_all (\<lambda>c. \<not> is_bind c) ev2"
    by (auto simp add: before_reset_def)
  have "\<exists>ev. trace s2 = trace s @ ev \<and> list_all (\<lambda>c. \<not> is_bind c) ev"
    by (rule exI [of _ "ev1 @ ev2"]) (use 1 2 in simp)
  with assms show ?thesis
    unfolding before_reset_def by auto
qed

lemma before_reset_or_break:
  assumes x: "\<And>r1 s1. x = (r1, s1) \<Longrightarrow> before_reset w s s1"
      and rest: "\<And>s1. rest s1 = (r, s') \<Longrightarrow> before_reset w s1 s' \<or> is_bind (last (trace s'))"
      and eq: "or_break x rest = (r, s')"
  shows "before_reset w s s' \<or> is_bind (last (trace s'))"
  using eq
proof (cases rule: or_break_cases)
  case stop
  then show ?thesis using x by simp
next
  case (go s1)
  then show ?thesis using x rest before_reset_trans by blast
qed

lemma before_reset_init_done:
  assumes "init_done w s = (r, s')"
  shows "before_reset w s s'"
  using assms
  by (cases "done_host s")
     (auto simp add: init_done_def or_break_def invoke_def Let_def before_reset_def
        split: if_splits)

lemma before_reset_init_iteration:
  assumes "init_iteration w s = (r, s')"
  shows "before_reset w s s'"
  using assms
  by (cases "iteration s")
     (auto simp add: init_iteration_def or_break_def invoke_def Let_def before_reset_def
        split: if_splits)

lemma before_reset_GlobalBarrierLifetime_Setup:
  assumes "GlobalBarrierLifetime_Setup w n s = (r, s')"
  shows "before_reset w s s'"
  using assms
  by (cases "global_barrier s")
     (auto simp add: GlobalBarrierLifetime_Setup_def invoke_def Let_def before_reset_def
        split: if_splits)

lemma before_reset_expand_kernel_stats_Setup:
  assumes "expand_kernel_stats_Setup w n s = (r, s')"
  shows "before_reset w s s'"
  using assms
  by (cases "expand_kernel_stats s")
     (auto simp add: expand_kernel_stats_Setup_def invoke_def Let_def before_reset_def
        split: if_splits)

lemma before_reset_contract_kernel_stats_Setup:
  assumes "contract_kernel_stats_Setup w n s = (r, s')"
  shows "before_reset w s s'"
  using assms
  by (cases "contract_kernel_stats s")
     (auto simp add: contract_kernel_stats_Setup_def invoke_def Let_def before_reset_def
        split: if_splits)

lemma Setup_before_reset:
  assumes "Setup w csr e_grid c_grid s = (r, s')"
  shows "before_reset w s s' \<or> is_bind (last (trace s'))"
  using assms unfolding Setup_def
  apply -
  apply (erule before_reset_or_break [rotated 2], erule before_reset_init_done)
  apply (erule before_reset_or_break [rotated 2], erule before_reset_init_iteration)
  apply (erule before_reset_or_break [rotated 2], erule before_reset_GlobalBarrierLifetime_Setup)
  apply (erule before_reset_or_break [rotated 2], erule before_reset_expand_kernel_stats_Setup)
  apply (erule before_reset_or_break [rotated 2], erule before_reset_contract_kernel_stats_Setup)
  apply (auto simp add: or_break_def bind_bitmask_def bind_row_offsets_def invoke_def Let_def
           split: if_splits)
  done

text \<open>
  Once \<open>iteration\<close> is allocated the rest of \<open>Setup\<close> leaves it so; a new
  enactor gets it from the call at line 143.
\<close>

lemma keeps_iteration_trans: "keeps_iteration a b \<Longrightarrow> keeps_iteration b c \<Longrightarrow> keeps_iteration a c"
  by (auto simp add: keeps_iteration_def)

lemma keeps_iteration_or_break:
  assumes x: "\<And>r1 s1. x = (r1, s1) \<Longrightarrow> keeps_iteration s s1"
      and rest: "\<And>s1. rest s1 = (r, s') \<Longrightarrow> keeps_iteration s1 s'"
      and eq: "or_break x rest = (r, s')"
  shows "keeps_iteration s s'"
  using eq
proof (cases rule: or_break_cases)
  case stop
  then show ?thesis using x by simp
next
  case (go s1)
  then show ?thesis using x rest keeps_iteration_trans by blast
qed

lemma Setup_tail_keeps_iteration:
  assumes "or_break (GlobalBarrierLifetime_Setup w e_grid b) (\<lambda>s.
             or_break (expand_kernel_stats_Setup w e_grid s) (\<lambda>s.
             or_break (contract_kernel_stats_Setup w c_grid s) (\<lambda>s.
             or_break (bind_bitmask w csr (reset_statistics s)) (\<lambda>s.
             bind_row_offsets w csr s)))) = (r, s')"
  shows "keeps_iteration b s'"
  using assms
  apply (elim keeps_iteration_or_break [rotated 2])
  apply (cases "global_barrier b"; auto simp add: GlobalBarrierLifetime_Setup_def invoke_def Let_def keeps_iteration_def split: if_splits)
  subgoal for s1 r1 s2 apply (cases "expand_kernel_stats s1"; auto simp add: expand_kernel_stats_Setup_def invoke_def Let_def keeps_iteration_def split: if_splits) done
  subgoal for s1 s2 r1 s3 apply (cases "contract_kernel_stats s2"; auto simp add: contract_kernel_stats_Setup_def invoke_def Let_def keeps_iteration_def split: if_splits) done
  apply (auto simp add: bind_bitmask_def bind_row_offsets_def reset_statistics_def invoke_def Let_def keeps_iteration_def)
  done


lemma init_done_no_HostAlloc_iteration:
  assumes "init_done w s = (r, s')"
  shows "iteration s' = iteration s
       \<and> (\<exists>ev. trace s' = trace s @ ev \<and> HostAlloc_iteration \<notin> set ev)"
  using assms
  by (cases "done_host s")
     (auto simp add: init_done_def or_break_def invoke_def Let_def split: if_splits)

lemma init_iteration_null:
  assumes "init_iteration w s = (r, s')" and "iteration s = None"
  shows "r = status w (trace s @ [HostAlloc_iteration]) \<and> r \<noteq> cudaSuccess
           \<and> iteration s' = None \<and> trace s' = trace s @ [HostAlloc_iteration]
       \<or> status w (trace s @ [HostAlloc_iteration]) = cudaSuccess
           \<and> iteration s' \<noteq> None
           \<and> trace s' = trace s @ [HostAlloc_iteration, HostGetDevicePointer_iteration]"
  using assms
  by (auto simp add: init_iteration_def or_break_def invoke_def Let_def split: if_splits)

lemma takeWhile_first:
  assumes "x \<notin> set xs"
  shows "takeWhile (\<lambda>c. c \<noteq> x) (xs @ x # ys) = xs"
  using assms by (induction xs) auto

lemma Setup_allocates_iteration:
  assumes su: "Setup w csr e_grid c_grid s = (r, s')" and null: "iteration s = None"
  shows "(iteration s' \<noteq> None)
       = (HostAlloc_iteration \<in> set (drop (length (trace s)) (trace s'))
          \<and> status w (trace s
                 @ takeWhile (\<lambda>c. c \<noteq> HostAlloc_iteration) (drop (length (trace s)) (trace s'))
                 @ [HostAlloc_iteration]) = cudaSuccess)"
  using su unfolding Setup_def
proof (cases rule: or_break_cases)
  case stop
  from init_done_no_HostAlloc_iteration [OF stop(1)] null show ?thesis
    by auto
next
  case (go a)
  from init_done_no_HostAlloc_iteration [OF go(1)] null obtain eva where
    a: "iteration a = None" "trace a = trace s @ eva" "HostAlloc_iteration \<notin> set eva"
    by auto
  from go(2) show ?thesis
  proof (cases rule: or_break_cases)
    case stop
    from init_iteration_null [OF stop(1) a(1)] a(2,3) show ?thesis
      by (auto simp add: takeWhile_first)
  next
    case (go b)
    from init_iteration_null [OF go(1) a(1)] have
      b: "status w (trace a @ [HostAlloc_iteration]) = cudaSuccess" "iteration b \<noteq> None"
         "trace b = trace a @ [HostAlloc_iteration, HostGetDevicePointer_iteration]"
      by auto
    from Setup_tail_keeps_iteration [OF go(2)] b(2) obtain ev where
      "iteration s' \<noteq> None" "trace s' = trace b @ ev"
      by (auto simp add: keeps_iteration_def)
    with a b show ?thesis
      by (simp add: takeWhile_first)
  qed
qed










lemma Setup_success_binds_last:
  assumes "Setup w csr e_grid c_grid s = (cudaSuccess, s1)"
  shows "is_bind (last (trace s1))"
  using Setup_success [OF assms] by auto





subsection \<open>Statistics before the first Setup\<close>

text \<open>
  Claim C9, as amended. On a newly constructed enactor \<open>GetStatistics\<close> reads through
  the null pointer \<open>iteration\<close>. In any state it does so exactly when \<open>iteration\<close>
  is null. A call of \<open>Setup\<close> on an enactor whose \<open>iteration\<close> is null leaves it
  non-null exactly when the call reached the allocation of line 143 and that allocation
  succeeded, whatever \<open>Setup\<close> then returns. After a call of \<open>Setup\<close> that returned
  \<open>cudaSuccess\<close>, \<open>GetStatistics\<close> returns 0 queued elements, the depth -1 and the
  duty 0.0. After a call that allocated the counter and failed before line 159 it returns
  too: the depth read from the memory that was never written, and the totals the enactor
  had before the call.
\<close>

theorem GetStatistics_before_Setup:
  fixes s :: "'v enactor"
  shows "(GetStatistics fp (EnactorTwoPhase sm rt0 lt0 debug :: 'v enactor)
            :: ((64 word \<times> 'a::len word \<times> 'd) \<times> 'v enactor) outcome) = NullDereference
       \<and> (((GetStatistics fp s :: ((64 word \<times> 'a word \<times> 'd) \<times> 'v enactor) outcome)
              = NullDereference) = (iteration s = None))
       \<and> (Setup w csr e_grid c_grid s = (r, s') \<and> iteration s = None \<longrightarrow>
            (iteration s' \<noteq> None)
            = (HostAlloc_iteration \<in> set (drop (length (trace s)) (trace s'))
               \<and> status w (trace s
                    @ takeWhile (\<lambda>c. c \<noteq> HostAlloc_iteration)
                        (drop (length (trace s)) (trace s'))
                    @ [HostAlloc_iteration]) = cudaSuccess))
       \<and> (Setup w csr e_grid c_grid s = (cudaSuccess, s1) \<longrightarrow>
            (GetStatistics fp s1 :: ((64 word \<times> 'a word \<times> 'd) \<times> 'v enactor) outcome)
              = Returned ((0, - 1, zero_double fp), s1\<lparr>trace := trace s1 @ [ThreadSynchronize]\<rparr>))
       \<and> (Setup w csr e_grid c_grid s = (r, s') \<and> iteration s = None
            \<and> iteration s' \<noteq> None \<and> \<not> is_bind (last (trace s')) \<longrightarrow>
            r \<noteq> cudaSuccess
            \<and> (GetStatistics fp s' :: ((64 word \<times> 'a word \<times> 'd) \<times> 'v enactor) outcome)
                = Returned
                    ((total_queued s,
                      scast (uninit_iteration w - 1),
                      if 0 < total_lifetimes s
                      then div_double fp (to_double fp (total_runtimes s))
                             (to_double fp (total_lifetimes s))
                      else zero_double fp),
                     s'\<lparr>trace := trace s' @ [ThreadSynchronize]\<rparr>))"
proof -
  have fresh: "(GetStatistics fp (EnactorTwoPhase sm rt0 lt0 debug :: 'v enactor)
            :: ((64 word \<times> 'a word \<times> 'd) \<times> 'v enactor) outcome) = NullDereference"
    by (simp add: GetStatistics_def EnactorTwoPhase_def)
  have null: "((GetStatistics fp s :: ((64 word \<times> 'a word \<times> 'd) \<times> 'v enactor) outcome)
              = NullDereference) = (iteration s = None)"
    by (cases "iteration s") (simp_all add: GetStatistics_def Let_def)
  have allocated: "Setup w csr e_grid c_grid s = (r, s') \<and> iteration s = None \<longrightarrow>
            (iteration s' \<noteq> None)
            = (HostAlloc_iteration \<in> set (drop (length (trace s)) (trace s'))
               \<and> status w (trace s
                    @ takeWhile (\<lambda>c. c \<noteq> HostAlloc_iteration)
                        (drop (length (trace s)) (trace s'))
                    @ [HostAlloc_iteration]) = cudaSuccess)"
    using Setup_allocates_iteration [of w csr e_grid c_grid s r s'] by blast
  have after: "Setup w csr e_grid c_grid s = (cudaSuccess, s1) \<longrightarrow>
            (GetStatistics fp s1 :: ((64 word \<times> 'a word \<times> 'd) \<times> 'v enactor) outcome)
              = Returned ((0, - 1, zero_double fp), s1\<lparr>trace := trace s1 @ [ThreadSynchronize]\<rparr>)"
  proof
    assume "Setup w csr e_grid c_grid s = (cudaSuccess, s1)"
    from Setup_success [OF this] show
      "(GetStatistics fp s1 :: ((64 word \<times> 'a word \<times> 'd) \<times> 'v enactor) outcome)
         = Returned ((0, - 1, zero_double fp), s1\<lparr>trace := trace s1 @ [ThreadSynchronize]\<rparr>)"
      by (simp add: GetStatistics_def Let_def)
  qed
  have failed: "Setup w csr e_grid c_grid s = (r, s') \<and> iteration s = None
            \<and> iteration s' \<noteq> None \<and> \<not> is_bind (last (trace s')) \<longrightarrow>
            r \<noteq> cudaSuccess
            \<and> (GetStatistics fp s' :: ((64 word \<times> 'a word \<times> 'd) \<times> 'v enactor) outcome)
                = Returned
                    ((total_queued s,
                      scast (uninit_iteration w - 1),
                      if 0 < total_lifetimes s
                      then div_double fp (to_double fp (total_runtimes s))
                             (to_double fp (total_lifetimes s))
                      else zero_double fp),
                     s'\<lparr>trace := trace s' @ [ThreadSynchronize]\<rparr>)"
  proof (intro impI, elim conjE)
    assume su: "Setup w csr e_grid c_grid s = (r, s')"
      and none: "iteration s = None" and some: "iteration s' \<noteq> None"
      and nb: "\<not> is_bind (last (trace s'))"
    from nb Setup_success_binds_last [of w csr e_grid c_grid s s'] su
    have r: "r \<noteq> cudaSuccess"
      by auto
    from Setup_before_reset [OF su] nb have "before_reset w s s'"
      by simp
    with none some have "iteration s' = Some (uninit_iteration w)"
      "total_queued s' = total_queued s" "total_runtimes s' = total_runtimes s"
      "total_lifetimes s' = total_lifetimes s"
      by (auto simp add: before_reset_def)
    with r show "r \<noteq> cudaSuccess
            \<and> (GetStatistics fp s' :: ((64 word \<times> 'a word \<times> 'd) \<times> 'v enactor) outcome)
                = Returned
                    ((total_queued s,
                      scast (uninit_iteration w - 1),
                      if 0 < total_lifetimes s
                      then div_double fp (to_double fp (total_runtimes s))
                             (to_double fp (total_lifetimes s))
                      else zero_double fp),
                     s'\<lparr>trace := trace s' @ [ThreadSynchronize]\<rparr>)"
      by (simp add: GetStatistics_def Let_def)
  qed
  from fresh null allocated after failed show ?thesis
    by simp
qed

theorem GetStatistics_before_Setup_witness:
  "(GetStatistics rat_ops (EnactorTwoPhase 200 5 6 False :: 32 word enactor)
      :: ((64 word \<times> 32 word \<times> rat) \<times> 32 word enactor) outcome) = NullDereference
   \<and> iteration (EnactorTwoPhase 200 5 6 False :: 32 word enactor) = None
   \<and> fst (Setup (sample_world all_succeed 1) sample_problem 112 112
             (EnactorTwoPhase 200 5 6 False :: 32 word enactor)) = cudaSuccess
   \<and> (case GetStatistics rat_ops
              (snd (Setup (sample_world all_succeed 1) sample_problem 112 112
                      (EnactorTwoPhase 200 5 6 False :: 32 word enactor))) of
        Returned ((queued, depth, duty), s') \<Rightarrow>
          queued = 0 \<and> depth = (- 1 :: 32 word) \<and> duty = (0 :: rat)
          \<and> last (trace s') = ThreadSynchronize
      | NullDereference \<Rightarrow> False)
   \<and> fst (Setup (sample_world (fails HostGetDevicePointer_iteration 3) 1) sample_problem
             112 112 (EnactorTwoPhase 200 5 6 False :: 32 word enactor)) = cudaErrorOther 3
   \<and> trace (snd (Setup (sample_world (fails HostGetDevicePointer_iteration 3) 1)
                    sample_problem 112 112 (EnactorTwoPhase 200 5 6 False :: 32 word enactor)))
       = [HostAlloc_done, HostGetDevicePointer_done, EventCreateWithFlags_throttle,
          HostAlloc_iteration, HostGetDevicePointer_iteration]
   \<and> (case GetStatistics rat_ops
              (snd (Setup (sample_world (fails HostGetDevicePointer_iteration 3) 1)
                      sample_problem 112 112
                      (EnactorTwoPhase 200 5 6 False :: 32 word enactor))) of
        Returned ((queued, depth, duty), s') \<Rightarrow>
          queued = 0 \<and> depth = (8 :: 32 word) \<and> duty = (5 / 6 :: rat)
      | NullDereference \<Rightarrow> False)
   \<and> fst (Setup (sample_world (fails HostAlloc_iteration 2) 1) sample_problem
             112 112 (EnactorTwoPhase 200 5 6 False :: 32 word enactor)) = cudaErrorOther 2
   \<and> (GetStatistics rat_ops
         (snd (Setup (sample_world (fails HostAlloc_iteration 2) 1) sample_problem
                 112 112 (EnactorTwoPhase 200 5 6 False :: 32 word enactor)))
        :: ((64 word \<times> 32 word \<times> rat) \<times> 32 word enactor) outcome) = NullDereference"
proof -
  let ?e = "EnactorTwoPhase 200 5 6 False :: 32 word enactor"
  let ?w = "sample_world all_succeed 1 :: 32 word world"
  let ?wp = "sample_world (fails HostGetDevicePointer_iteration 3) 1 :: 32 word world"
  let ?wa = "sample_world (fails HostAlloc_iteration 2) 1 :: 32 word world"
  have su: "Setup ?w sample_problem 112 112 ?e
              = (cudaSuccess, snd (Setup ?w sample_problem 112 112 ?e))"
    by (simp add: run_defs)
  have sp: "Setup ?wp sample_problem 112 112 ?e
              = (cudaErrorOther 3, snd (Setup ?wp sample_problem 112 112 ?e))"
    by (simp add: run_defs)
  have sa: "Setup ?wa sample_problem 112 112 ?e
              = (cudaErrorOther 2, snd (Setup ?wa sample_problem 112 112 ?e))"
    by (simp add: run_defs)
  from GetStatistics_before_Setup
         [where fp = rat_ops and s = ?e and 'a = 32 and sm = 200 and ?rt0.0 = 5
            and ?lt0.0 = 6 and debug = False and w = ?w and csr = sample_problem
            and e_grid = 112 and c_grid = 112
            and ?s1.0 = "snd (Setup ?w sample_problem 112 112 ?e)"]
       GetStatistics_before_Setup
         [where fp = rat_ops and s = ?e and 'a = 32 and sm = 200 and ?rt0.0 = 5
            and ?lt0.0 = 6 and debug = False and w = ?wp and csr = sample_problem
            and e_grid = 112 and c_grid = 112 and r = "cudaErrorOther 3"
            and s' = "snd (Setup ?wp sample_problem 112 112 ?e)"]
       GetStatistics_before_Setup
         [where fp = rat_ops and s = ?e and 'a = 32 and sm = 200 and ?rt0.0 = 5
            and ?lt0.0 = 6 and debug = False and w = ?wa and csr = sample_problem
            and e_grid = 112 and c_grid = 112 and r = "cudaErrorOther 2"
            and s' = "snd (Setup ?wa sample_problem 112 112 ?e)"]
  show ?thesis
    by (simp add: run_defs GetStatistics_def rat_ops_def)
qed

text \<open>
  Claim C9 as stated fails in its last part: \<open>GetStatistics\<close> returns without reading
  through a null pointer although no call of \<open>Setup\<close> has succeeded. Here the barrier
  setup fails on a new enactor whose uninitialised totals hold 5 and 6: the counter is
  allocated, and \<open>GetStatistics\<close> returns the depth 8 and the duty 5/6 from what the
  fresh memory held (9) and from the totals.
\<close>

theorem GetStatistics_after_failed_Setup:
  "fst (Setup (sample_world (fails (Alloc_global_barrier 112) 2) 1) sample_problem 112 112
          (EnactorTwoPhase 200 5 6 False :: 32 word enactor)) = cudaErrorOther 2
   \<and> (case GetStatistics rat_ops
              (snd (Setup (sample_world (fails (Alloc_global_barrier 112) 2) 1)
                      sample_problem 112 112
                      (EnactorTwoPhase 200 5 6 False :: 32 word enactor))) of
        Returned ((queued, depth, duty), s') \<Rightarrow>
          queued = 0 \<and> depth = (8 :: 32 word) \<and> duty = (5 / 6 :: rat)
      | NullDereference \<Rightarrow> False)"
  by (simp add: run_defs GetStatistics_def rat_ops_def)

subsection \<open>The fused search and the residency limit\<close>

lemma quiet_Accumulate_fused:
  assumes "Accumulate_fused w n s = (r, s')"
  shows "quiet w s r s'"
  using assms
  by (auto simp add: Accumulate_fused_def quiet_def invoke_def Let_def split: prod.splits)

text \<open>
  Claim C1, as amended. \<open>EnactFusedSearch\<close> compares \<open>max_grid_size\<close> with nothing.
  On a device of generation 200 or later it calls \<open>Setup\<close> with the grid size
  \<open>MaxGridSize(8, max_grid_size)\<close>, whatever that is; \<open>Setup\<close> launches nothing; if
  \<open>Setup\<close> fails, its error is returned and nothing is launched; if it succeeds, the
  next call is the launch of the fused kernel with that grid size, no other launch
  follows, and a failure is returned only as the status of the last call made.
\<close>

theorem EnactFusedSearch_no_residency_check:
  assumes sm: "200 \<le> device_sm_version s"
      and su: "Setup w csr (MaxGridSize w 8 max_grid_size) 0 s = (r, s1)"
  shows "list_all (\<lambda>c. \<not> is_dispatch c) (drop (length (trace s)) (trace s1))
       \<and> (r \<noteq> cudaSuccess \<longrightarrow>
             EnactFusedSearch instrument w csr src max_grid_size s = (r, s1))
       \<and> (r = cudaSuccess \<longrightarrow>
            (\<exists>ev. trace (snd (EnactFusedSearch instrument w csr src max_grid_size s))
                    = trace s1
                      @ Launch_fused
                          \<lparr> f_policy = fused_policy_200 instrument,
                            f_grid_size = MaxGridSize w 8 max_grid_size, f_threads = 128,
                            f_iteration = 0, f_queue_index = 0, f_steal_index = 0, f_src = src,
                            f_max_edge_frontier = frontier_elements_1 csr,
                            f_max_vertex_frontier = frontier_elements_0 csr,
                            f_device_args =
                              [d_keys 1, d_keys 0, d_values 1, d_column_indices, d_row_offsets,
                               d_labels, d_visited_mask, work_progress, ref_global_barrier,
                               ref_expand_kernel_stats, ref_d_iteration] \<rparr>
                      # ev
                  \<and> list_all (\<lambda>c. \<not> is_dispatch c) ev
                  \<and> (fst (EnactFusedSearch instrument w csr src max_grid_size s) \<noteq> cudaSuccess
                       \<longrightarrow> ev \<noteq> []
                         \<and> status w (trace (snd (EnactFusedSearch instrument w csr src max_grid_size s)))
                             = fst (EnactFusedSearch instrument w csr src max_grid_size s))))"
proof -
  have occ: "CTA_OCCUPANCY (fused_policy_200 instrument) = 8"
    by (simp add: fused_policy_200_def)
  have thr: "THREADS (fused_policy_200 instrument) = 128"
    by (simp add: fused_policy_200_def THREADS_def)
  from quiet_Setup [OF su]
  have q: "list_all (\<lambda>c. \<not> is_dispatch c) (drop (length (trace s)) (trace s1))"
    and dbg: "DEBUG s1 = DEBUG s"
    by (auto simp add: quiet_def)
  have fail: "EnactFusedSearch instrument w csr src max_grid_size s = (r, s1)"
    if "r \<noteq> cudaSuccess"
    using that sm su
    by (simp add: EnactFusedSearch_def EnactFusedSearch_policy_def occ or_break_def Let_def)
  have ok: "\<exists>ev. trace (snd (EnactFusedSearch instrument w csr src max_grid_size s))
                    = trace s1
                      @ Launch_fused
                          \<lparr> f_policy = fused_policy_200 instrument,
                            f_grid_size = MaxGridSize w 8 max_grid_size, f_threads = 128,
                            f_iteration = 0, f_queue_index = 0, f_steal_index = 0, f_src = src,
                            f_max_edge_frontier = frontier_elements_1 csr,
                            f_max_vertex_frontier = frontier_elements_0 csr,
                            f_device_args =
                              [d_keys 1, d_keys 0, d_values 1, d_column_indices, d_row_offsets,
                               d_labels, d_visited_mask, work_progress, ref_global_barrier,
                               ref_expand_kernel_stats, ref_d_iteration] \<rparr>
                      # ev
                  \<and> list_all (\<lambda>c. \<not> is_dispatch c) ev
                  \<and> (fst (EnactFusedSearch instrument w csr src max_grid_size s) \<noteq> cudaSuccess
                       \<longrightarrow> ev \<noteq> []
                         \<and> status w (trace (snd (EnactFusedSearch instrument w csr src max_grid_size s)))
                             = fst (EnactFusedSearch instrument w csr src max_grid_size s))"
    if "r = cudaSuccess"
    using that sm su
    by (auto simp add: EnactFusedSearch_def EnactFusedSearch_policy_def occ thr or_break_def
          Let_def launch_fused_def launch_def invoke_def Accumulate_fused_def
          split: prod.splits)
  from q fail ok show ?thesis
    by blast
qed

theorem EnactFusedSearch_no_residency_check_witness:
  "200 \<le> device_sm_version (EnactorTwoPhase 200 0 0 True :: 32 word enactor)
   \<and> MaxGridSize (sample_world all_succeed 2 :: 32 word world) 8 0 = 112
   \<and> fst (Setup (sample_world all_succeed 2) sample_problem 112 0
             (EnactorTwoPhase 200 0 0 True :: 32 word enactor)) = cudaSuccess
   \<and> drop 10 (trace (snd (EnactFusedSearch False (sample_world all_succeed 2) sample_problem 3 0
                             (EnactorTwoPhase 200 0 0 True :: 32 word enactor))))
       = [Launch_fused
            \<lparr> f_policy = fused_policy_200 False, f_grid_size = 112, f_threads = 128,
              f_iteration = 0, f_queue_index = 0, f_steal_index = 0, f_src = 3,
              f_max_edge_frontier = 16, f_max_vertex_frontier = 8,
              f_device_args =
                [d_keys 1, d_keys 0, d_values 1, d_column_indices, d_row_offsets,
                 d_labels, d_visited_mask, work_progress, ref_global_barrier,
                 ref_expand_kernel_stats, ref_d_iteration] \<rparr>,
          ThreadSynchronize]
   \<and> fst (Setup (sample_world (fails (BindTexture_bitmask 1) 4) 2) sample_problem 112 0
             (EnactorTwoPhase 200 0 0 True :: 32 word enactor)) = cudaErrorOther 4
   \<and> EnactFusedSearch False (sample_world (fails (BindTexture_bitmask 1) 4) 2) sample_problem 3 0
        (EnactorTwoPhase 200 0 0 True :: 32 word enactor)
       = Setup (sample_world (fails (BindTexture_bitmask 1) 4) 2) sample_problem 112 0
           (EnactorTwoPhase 200 0 0 True)"
proof -
  let ?e = "EnactorTwoPhase 200 0 0 True :: 32 word enactor"
  let ?w = "sample_world all_succeed 2 :: 32 word world"
  let ?w' = "sample_world (fails (BindTexture_bitmask 1) 4) 2 :: 32 word world"
  have sm: "200 \<le> device_sm_version ?e"
    by (simp add: EnactorTwoPhase_def)
  have su: "Setup ?w sample_problem (MaxGridSize ?w 8 0) 0 ?e
              = (fst (Setup ?w sample_problem (MaxGridSize ?w 8 0) 0 ?e),
                 snd (Setup ?w sample_problem (MaxGridSize ?w 8 0) 0 ?e))"
    by simp
  have su': "Setup ?w' sample_problem (MaxGridSize ?w' 8 0) 0 ?e
              = (fst (Setup ?w' sample_problem (MaxGridSize ?w' 8 0) 0 ?e),
                 snd (Setup ?w' sample_problem (MaxGridSize ?w' 8 0) 0 ?e))"
    by simp
  from EnactFusedSearch_no_residency_check [OF sm su, of False 3]
       EnactFusedSearch_no_residency_check [OF sm su', of False 3]
  show ?thesis
    by (simp add: run_defs)
qed

text \<open>
  Claim C1 as stated fails. The device has 14 multiprocessors and the fused policy an
  occupancy of 8, so 112 groups are resident at once; a search asked to use 1000 groups
  returns \<open>cudaSuccess\<close>, having launched the fused kernel with 1000 groups.
\<close>

theorem oversubscribed_fused_search_dispatched:
  "max_resident_grid 14 (fused_policy_200 True) = 112
   \<and> EnactFusedSearch True (sample_world all_succeed 2) sample_problem 0 1000
        (EnactorTwoPhase 200 0 0 False :: 32 word enactor)
     = (cudaSuccess,
        \<lparr> DEBUG = False, device_sm_version = 200,
          expand_kernel_stats = Some 1000, contract_kernel_stats = Some 0,
          total_runtimes = 3, total_lifetimes = 4, total_queued = 5,
          done_host = Some 0, d_done = True, throttle_event = True,
          global_barrier = Some 1000, iteration = Some 2, d_iteration = True,
          trace =
            [HostAlloc_done, HostGetDevicePointer_done, EventCreateWithFlags_throttle,
             HostAlloc_iteration, HostGetDevicePointer_iteration,
             Alloc_global_barrier 1000,
             Alloc_kernel_stats ref_expand_kernel_stats 1000,
             Alloc_kernel_stats ref_contract_kernel_stats 0,
             BindTexture_bitmask 1, BindTexture_row_offsets 24,
             Launch_fused
               \<lparr> f_policy = fused_policy_200 True, f_grid_size = 1000, f_threads = 128,
                 f_iteration = 0, f_queue_index = 0, f_steal_index = 0, f_src = 0,
                 f_max_edge_frontier = 16, f_max_vertex_frontier = 8,
                 f_device_args =
                   [d_keys 1, d_keys 0, d_values 1, d_column_indices, d_row_offsets,
                    d_labels, d_visited_mask, work_progress, ref_global_barrier,
                    ref_expand_kernel_stats, ref_d_iteration] \<rparr>,
             Accumulate ref_expand_kernel_stats 1000] \<rparr>)"
  by (simp add: run_defs max_resident_grid_def)

subsection \<open>One level of the iterative search\<close>

lemma then_step_Continue:
  assumes "then_step x rest = Continue y"
  obtains z where "x = Continue z" "rest z = Continue y"
  using assms by (cases x) simp_all

lemma then_step_Break:
  assumes "then_step x rest = Break y"
  obtains (stop) "x = Break y" | (go) z where "x = Continue z" "rest z = Break y"
  using assms by (cases x) simp_all

text \<open>A transitive relation between frames holds along \<open>then_step\<close>.\<close>

lemma then_step_rel:
  assumes trans: "\<And>a b c. R a b \<Longrightarrow> R b c \<Longrightarrow> R a c"
      and first: "\<And>z. x = Continue z \<or> x = Break z \<Longrightarrow> R st z"
      and rest: "\<And>z. x = Continue z \<Longrightarrow> rest z = Continue st' \<or> rest z = Break st' \<Longrightarrow> R z st'"
      and r: "then_step x rest = Continue st' \<or> then_step x rest = Break st'"
  shows "R st st'"
proof (cases x)
  case (Continue z)
  with r have "rest z = Continue st' \<or> rest z = Break st'"
    by simp
  with first rest Continue show ?thesis
    by (blast intro: trans)
next
  case (Break z)
  with r first show ?thesis
    by simp
next
  case Fault
  with r show ?thesis
    by simp
qed

lemmas phase_defs =
  attempt_def debug_sync_def GetQueueLength_contract_def GetQueueLength_expand_def
  Accumulate_level_def launch_def invoke_def Let_def

lemma contract_phase_Continue:
  assumes "contract_phase cfg st = Continue st1"
  shows "\<exists>it ev. iteration (en st) = Some it \<and> iteration (en st1) = Some it
           \<and> done_host (en st1) = done_host (en st)
           \<and> DEBUG (en st1) = DEBUG (en st)
           \<and> queue_index st1 = queue_index st + 1
           \<and> trace (en st1) = trace (en st)
               @ Launch_contract
                   \<lparr> c_policy = ContractPolicy cfg, c_grid_size = contract_grid_size cfg,
                     c_threads = C_THREADS (ContractPolicy cfg), c_src = cfg_src cfg,
                     c_iteration = it, c_num_elements = 0,
                     c_queue_index = queue_index st, c_steal_index = queue_index st,
                     c_num_gpus = 1,
                     c_max_vertex_frontier = frontier_elements_0 (cfg_problem cfg),
                     c_device_args =
                       [ref_d_done, d_keys 1, d_keys 0, d_values 1, d_labels, d_visited_mask,
                        work_progress, ref_contract_kernel_stats] \<rparr> # ev
           \<and> list_all (\<lambda>c. \<not> is_dispatch c) ev \<and> Read_done \<notin> set ev"
  using assms
  by (cases "iteration (en st)")
     (auto simp add: contract_phase_def phase_defs split: if_splits prod.splits)

lemma contract_phase_Break:
  assumes "contract_phase cfg st = Break st1"
  shows "\<exists>it ev. iteration (en st) = Some it \<and> iteration (en st1) = Some it
           \<and> done_host (en st1) = done_host (en st)
           \<and> (queue_index st1 = queue_index st \<or> queue_index st1 = queue_index st + 1)
           \<and> trace (en st1) = trace (en st)
               @ Launch_contract
                   \<lparr> c_policy = ContractPolicy cfg, c_grid_size = contract_grid_size cfg,
                     c_threads = C_THREADS (ContractPolicy cfg), c_src = cfg_src cfg,
                     c_iteration = it, c_num_elements = 0,
                     c_queue_index = queue_index st, c_steal_index = queue_index st,
                     c_num_gpus = 1,
                     c_max_vertex_frontier = frontier_elements_0 (cfg_problem cfg),
                     c_device_args =
                       [ref_d_done, d_keys 1, d_keys 0, d_values 1, d_labels, d_visited_mask,
                        work_progress, ref_contract_kernel_stats] \<rparr> # ev
           \<and> list_all (\<lambda>c. \<not> is_dispatch c) ev
           \<and> retval st1 \<noteq> cudaSuccess \<and> status (cfg_world cfg) (trace (en st1)) = retval st1"
  using assms
  by (cases "iteration (en st)")
     (auto simp add: contract_phase_def phase_defs split: if_splits prod.splits)

lemma expand_phase_Continue:
  assumes "expand_phase cfg st = Continue st1"
  shows "\<exists>it ev. iteration (en st) = Some it \<and> iteration (en st1) = Some (it + 1)
           \<and> done_host (en st1) = done_host (en st)
           \<and> DEBUG (en st1) = DEBUG (en st)
           \<and> queue_index st1 = queue_index st + 1
           \<and> trace (en st1) = trace (en st)
               @ Launch_expand
                   \<lparr> e_policy = ExpandPolicy cfg, e_grid_size = expand_grid_size cfg,
                     e_threads = THREADS (ExpandPolicy cfg),
                     e_queue_index = queue_index st, e_steal_index = queue_index st,
                     e_num_gpus = 1,
                     e_max_edge_frontier = frontier_elements_1 (cfg_problem cfg),
                     e_device_args =
                       [ref_d_done, d_keys 0, d_keys 1, d_values 1, d_column_indices,
                        d_row_offsets, work_progress, ref_expand_kernel_stats] \<rparr> # ev
           \<and> list_all (\<lambda>c. \<not> is_dispatch c) ev"
  using assms
  by (auto simp add: expand_phase_def phase_defs split: if_splits prod.splits option.splits)

lemma expand_phase_Break:
  assumes "expand_phase cfg st = Break st1"
  shows "\<exists>ev. (iteration (en st) \<noteq> None \<longrightarrow> iteration (en st1) \<noteq> None)
           \<and> done_host (en st1) = done_host (en st)
           \<and> (queue_index st1 = queue_index st \<or> queue_index st1 = queue_index st + 1)
           \<and> trace (en st1) = trace (en st)
               @ Launch_expand
                   \<lparr> e_policy = ExpandPolicy cfg, e_grid_size = expand_grid_size cfg,
                     e_threads = THREADS (ExpandPolicy cfg),
                     e_queue_index = queue_index st, e_steal_index = queue_index st,
                     e_num_gpus = 1,
                     e_max_edge_frontier = frontier_elements_1 (cfg_problem cfg),
                     e_device_args =
                       [ref_d_done, d_keys 0, d_keys 1, d_values 1, d_column_indices,
                        d_row_offsets, work_progress, ref_expand_kernel_stats] \<rparr> # ev
           \<and> list_all (\<lambda>c. \<not> is_dispatch c) ev"
  using assms
  by (auto simp add: expand_phase_def phase_defs split: if_splits prod.splits option.splits)


lemma then_step_Fault:
  assumes "then_step x rest = Fault"
  obtains (stop) "x = Fault" | (go) z where "x = Continue z" "rest z = Fault"
  using assms by (cases x) simp_all

lemma contract_phase_Fault:
  assumes "contract_phase cfg st = Fault"
  shows "iteration (en st) = None"
  using assms
  by (cases "iteration (en st)")
     (auto simp add: contract_phase_def phase_defs split: if_splits prod.splits)

lemma expand_phase_Fault:
  assumes "expand_phase cfg st = Fault"
  shows "iteration (en st) = None"
  using assms
  by (cases "iteration (en st)")
     (auto simp add: expand_phase_def phase_defs split: if_splits prod.splits)

lemma throttle_Some:
  assumes "iteration (en st) = Some it"
  shows "throttle cfg st =
     (let h = trace (en st)
                @ [if it AND 1 \<noteq> 0 then EventRecord_throttle else EventSynchronize_throttle];
          st' = st\<lparr>en := (en st)\<lparr>trace := h\<rparr>, retval := status (cfg_world cfg) h\<rparr>
      in if status (cfg_world cfg) h \<noteq> cudaSuccess then Break st' else Continue st')"
  using assms by (simp add: throttle_def attempt_def invoke_def Let_def)

lemma check_done_Some:
  assumes "done_host (en st) = Some d"
  shows "check_done cfg st =
     (let h = trace (en st) @ [Read_done];
          st' = st\<lparr>en := (en st)\<lparr>trace := h,
                    done_host := Some (device_done (cfg_world cfg) h)\<rparr>\<rparr>
      in if device_done (cfg_world cfg) h \<noteq> 0 then Break st' else Continue st')"
  using assms by (simp add: check_done_def Let_def)

lemma sint_add_two:
  fixes q :: "'a::len word"
  assumes "sint q + 2 < 2 ^ (LENGTH('a) - 1)"
  shows "sint (q + 2) = sint q + 2"
proof -
  have "q + 2 = word_of_int (sint q + 2)"
    by simp
  then have "sint (q + 2) = signed_take_bit (LENGTH('a) - 1) (sint q + 2)"
    by (simp only: sint_sbintrunc')
  also have "\<dots> = sint q + 2"
    using assms sint_ge [of q] by (intro signed_take_bit_int_eq_self) linarith+
  finally show ?thesis .
qed

lemma sint_add_two_wraps:
  fixes q :: "'a::len word"
  assumes "2 ^ (LENGTH('a) - 1) \<le> sint q + 2"
  shows "sint (q + 2) = sint q + 2 - 2 ^ LENGTH('a)"
proof -
  define m :: int where "m = 2 ^ (LENGTH('a) - 1)"
  have len: "(2 :: int) ^ LENGTH('a) = 2 * m"
    unfolding m_def by (cases "LENGTH('a)") simp_all
  have m: "1 \<le> m"
    unfolding m_def by simp
  have lo: "m \<le> sint q + 2"
    using assms by (simp add: m_def)
  have hi: "sint q < m"
    unfolding m_def by (rule sint_lt)
  have "q + 2 = word_of_int (sint q + 2)"
    by simp
  then have "sint (q + 2) = signed_take_bit (LENGTH('a) - 1) (sint q + 2)"
    by (simp only: sint_sbintrunc')
  also have "\<dots> = take_bit (Suc (LENGTH('a) - 1)) (sint q + 2 + m) - m"
    unfolding m_def by (rule signed_take_bit_eq_take_bit_shift)
  also have "take_bit (Suc (LENGTH('a) - 1)) (sint q + 2 + m) = (sint q + 2 + m) mod (2 * m)"
    by (simp add: take_bit_eq_mod len [symmetric])
  also have "(sint q + 2 + m) mod (2 * m) = sint q + 2 - m"
    using lo hi m by (intro int_mod_pos_eq [where q = 1]) simp_all
  finally show ?thesis
    by (simp add: len)
qed

text \<open>A level that reaches the end of the loop body.\<close>

lemma level_Continue:
  fixes st :: "'a::len word frame"
  assumes "level cfg st = Continue st'"
  shows "queue_index st' = queue_index st + 2
       \<and> (\<exists>it. iteration (en st) = Some it \<and> iteration (en st') = Some (it + 1))
       \<and> (\<exists>ca ev1 ea ev2.
             trace (en st') = trace (en st)
                @ Launch_contract ca # ev1 @ Launch_expand ea # ev2
             \<and> c_queue_index ca = queue_index st
             \<and> e_queue_index ea = queue_index st + 1
             \<and> list_all (\<lambda>c. \<not> is_dispatch c) ev1
             \<and> list_all (\<lambda>c. \<not> is_dispatch c) ev2)
       \<and> (sint (queue_index st) + 2 < 2 ^ (LENGTH('a) - 1)
            \<longrightarrow> sint (queue_index st') = sint (queue_index st) + 2)
       \<and> done_host (en st') \<noteq> None"
proof -
  from assms obtain a where a: "contract_phase cfg st = Continue a"
    and ra: "then_step (throttle cfg a) (\<lambda>st. then_step (check_done cfg st) (expand_phase cfg))
               = Continue st'"
    unfolding level_def by (rule then_step_Continue)
  from ra obtain b where b: "throttle cfg a = Continue b"
    and rb: "then_step (check_done cfg b) (expand_phase cfg) = Continue st'"
    by (rule then_step_Continue)
  from rb obtain c where c: "check_done cfg b = Continue c"
    and d: "expand_phase cfg c = Continue st'"
    by (rule then_step_Continue)
  from contract_phase_Continue [OF a] obtain it ev1 ca where
    a': "iteration (en st) = Some it" "iteration (en a) = Some it"
        "queue_index a = queue_index st + 1"
        "trace (en a) = trace (en st) @ Launch_contract ca # ev1"
        "c_queue_index ca = queue_index st"
        "list_all (\<lambda>c. \<not> is_dispatch c) ev1"
    by fastforce
  from b a'(2) have b': "iteration (en b) = Some it" "queue_index b = queue_index a"
    "\<exists>e. trace (en b) = trace (en a) @ [e] \<and> \<not> is_dispatch e"
    by (auto simp add: throttle_Some Let_def split: if_splits)
  from c have c': "iteration (en c) = iteration (en b)" "queue_index c = queue_index b"
    "trace (en c) = trace (en b) @ [Read_done]" "done_host (en c) \<noteq> None"
    by (cases "done_host (en b)"; auto simp add: check_done_def Let_def split: if_splits)+
  from expand_phase_Continue [OF d] obtain it' ev2 ea where
    d': "iteration (en c) = Some it'" "iteration (en st') = Some (it' + 1)"
        "queue_index st' = queue_index c + 1"
        "trace (en st') = trace (en c) @ Launch_expand ea # ev2"
        "e_queue_index ea = queue_index c"
        "list_all (\<lambda>c. \<not> is_dispatch c) ev2"
        "done_host (en st') = done_host (en c)"
    by fastforce
  from b'(3) obtain e where e: "trace (en b) = trace (en a) @ [e]" "\<not> is_dispatch e"
    by blast
  have q: "queue_index st' = queue_index st + 2"
    using a'(3) b'(2) c'(2) d'(3) by simp
  have i: "\<exists>it. iteration (en st) = Some it \<and> iteration (en st') = Some (it + 1)"
    using a'(1) b'(1) c'(1) d'(1,2) by simp
  have t: "\<exists>ca ev1 ea ev2.
             trace (en st') = trace (en st) @ Launch_contract ca # ev1 @ Launch_expand ea # ev2
             \<and> c_queue_index ca = queue_index st
             \<and> e_queue_index ea = queue_index st + 1
             \<and> list_all (\<lambda>c. \<not> is_dispatch c) ev1
             \<and> list_all (\<lambda>c. \<not> is_dispatch c) ev2"
  proof (intro exI conjI)
    show "trace (en st') = trace (en st)
            @ Launch_contract ca # (ev1 @ [e, Read_done]) @ Launch_expand ea # ev2"
      using a'(4) e(1) c'(3) d'(4) by simp
    show "c_queue_index ca = queue_index st" by (fact a'(5))
    show "e_queue_index ea = queue_index st + 1"
      using d'(5) c'(2) b'(2) a'(3) by simp
    show "list_all (\<lambda>c. \<not> is_dispatch c) (ev1 @ [e, Read_done])"
      using a'(6) e(2) by simp
    show "list_all (\<lambda>c. \<not> is_dispatch c) ev2" by (fact d'(6))
  qed
  have s: "sint (queue_index st) + 2 < 2 ^ (LENGTH('a) - 1)
             \<longrightarrow> sint (queue_index st') = sint (queue_index st) + 2"
    using sint_add_two [of "queue_index st"] q by simp
  have h: "done_host (en st') \<noteq> None"
    using c'(4) d'(7) by simp
  from q i t s h show ?thesis
    by simp
qed

text \<open>A level that leaves the loop.\<close>

lemma level_Break:
  fixes st :: "'a::len word frame"
  assumes "level cfg st = Break st'"
  shows "queue_index st' = queue_index st
       \<or> queue_index st' = queue_index st + 1
       \<or> queue_index st' = queue_index st + 2"
proof -
  from assms consider
      (contract) "contract_phase cfg st = Break st'"
    | (throttle) a where "contract_phase cfg st = Continue a" "throttle cfg a = Break st'"
    | (check) a b where "contract_phase cfg st = Continue a" "throttle cfg a = Continue b"
        "check_done cfg b = Break st'"
    | (expand) a b c where "contract_phase cfg st = Continue a" "throttle cfg a = Continue b"
        "check_done cfg b = Continue c" "expand_phase cfg c = Break st'"
    unfolding level_def by (elim then_step_Break) auto
  then show ?thesis
  proof cases
    case contract
    from contract_phase_Break [OF this] show ?thesis by blast
  next
    case throttle
    from contract_phase_Continue [OF throttle(1)] obtain it where
      "iteration (en a) = Some it" "queue_index a = queue_index st + 1" by blast
    with throttle(2) show ?thesis
      by (auto simp add: throttle_Some Let_def split: if_splits)
  next
    case check
    from contract_phase_Continue [OF check(1)] obtain it where
      "iteration (en a) = Some it" "queue_index a = queue_index st + 1" by blast
    with check(2) have "queue_index b = queue_index st + 1"
      by (auto simp add: throttle_Some Let_def split: if_splits)
    with check(3) show ?thesis
      by (cases "done_host (en b)") (auto simp add: check_done_def Let_def split: if_splits)
  next
    case expand
    from contract_phase_Continue [OF expand(1)] obtain it where
      "iteration (en a) = Some it" "queue_index a = queue_index st + 1" by blast
    with expand(2) have "queue_index b = queue_index st + 1"
      by (auto simp add: throttle_Some Let_def split: if_splits)
    with expand(3) have "queue_index c = queue_index st + 1"
      by (cases "done_host (en b)") (auto simp add: check_done_def Let_def split: if_splits)
    with expand_phase_Break [OF expand(4)] show ?thesis
      by auto
  qed
qed

text \<open>A level that reads through a null pointer.\<close>

lemma level_Fault:
  fixes st :: "'a::len word frame"
  assumes "level cfg st = Fault"
  shows "iteration (en st) = None \<or> done_host (en st) = None"
proof -
  from assms consider
      (contract) "contract_phase cfg st = Fault"
    | (throttle) a where "contract_phase cfg st = Continue a" "throttle cfg a = Fault"
    | (check) a b where "contract_phase cfg st = Continue a" "throttle cfg a = Continue b"
        "check_done cfg b = Fault"
    | (expand) a b c where "contract_phase cfg st = Continue a" "throttle cfg a = Continue b"
        "check_done cfg b = Continue c" "expand_phase cfg c = Fault"
    unfolding level_def by (elim then_step_Fault) auto
  then show ?thesis
  proof cases
    case contract
    then show ?thesis by (simp add: contract_phase_Fault)
  next
    case throttle
    from contract_phase_Continue [OF throttle(1)] obtain it where
      "iteration (en a) = Some it" by blast
    with throttle(2) show ?thesis
      by (simp add: throttle_Some Let_def split: if_splits)
  next
    case check
    from contract_phase_Continue [OF check(1)] obtain it where
      a: "iteration (en a) = Some it" "done_host (en a) = done_host (en st)" by blast
    with check(2) have "done_host (en b) = done_host (en st)"
      by (auto simp add: throttle_Some Let_def split: if_splits)
    with check(3) show ?thesis
      by (cases "done_host (en b)") (auto simp add: check_done_def Let_def split: if_splits)
  next
    case expand
    from contract_phase_Continue [OF expand(1)] obtain it where
      a: "iteration (en a) = Some it" by blast
    with expand(2) have "iteration (en b) = Some it"
      by (auto simp add: throttle_Some Let_def split: if_splits)
    with expand(3) have "iteration (en c) = Some it"
      by (cases "done_host (en b)") (auto simp add: check_done_def Let_def split: if_splits)
    with expand_phase_Fault [OF expand(4)] show ?thesis
      by simp
  qed
qed

text \<open>
  Claim C4, as amended. A level that reaches the end of the loop body has increased the
  queue index by 2 in the arithmetic of \<open>VertexId\<close>, that is modulo \<open>2 ^ n\<close> for
  an \<open>n\<close>-bit \<open>VertexId\<close> (the contraction was launched with the old index, the
  expansion with the old index plus 1), and the iteration counter by 1 modulo
  \<open>2 ^ 64\<close>, and has launched these two kernels and no other. Read as a signed integer,
  the index has grown by exactly 2 when the old index plus 2 is still a value of
  \<open>VertexId\<close>, and has dropped by \<open>2 ^ n - 2\<close> otherwise. A level that leaves the
  loop has increased the index by 0, 1 or 2, again in the arithmetic of \<open>VertexId\<close>. A
  level reads through a null pointer only if \<open>iteration\<close> or \<open>done\<close> is null.
\<close>

theorem level_advances_queue_index:
  fixes st :: "'a::len word frame"
  shows "case level cfg st of
           Continue st' \<Rightarrow>
             queue_index st' = queue_index st + 2
             \<and> (\<exists>it. iteration (en st) = Some it \<and> iteration (en st') = Some (it + 1))
             \<and> (\<exists>ca ev1 ea ev2.
                   trace (en st') = trace (en st)
                      @ Launch_contract ca # ev1 @ Launch_expand ea # ev2
                   \<and> c_queue_index ca = queue_index st
                   \<and> e_queue_index ea = queue_index st + 1
                   \<and> list_all (\<lambda>c. \<not> is_dispatch c) ev1
                   \<and> list_all (\<lambda>c. \<not> is_dispatch c) ev2)
             \<and> (sint (queue_index st) + 2 < 2 ^ (LENGTH('a) - 1)
                  \<longrightarrow> sint (queue_index st') = sint (queue_index st) + 2)
             \<and> (2 ^ (LENGTH('a) - 1) \<le> sint (queue_index st) + 2
                  \<longrightarrow> sint (queue_index st')
                        = sint (queue_index st) + 2 - 2 ^ LENGTH('a))
         | Break st' \<Rightarrow>
             queue_index st' = queue_index st
             \<or> queue_index st' = queue_index st + 1
             \<or> queue_index st' = queue_index st + 2
         | Fault \<Rightarrow> iteration (en st) = None \<or> done_host (en st) = None"
proof (cases "level cfg st")
  case (Continue st')
  from level_Continue [OF Continue] have "queue_index st' = queue_index st + 2"
    by blast
  with sint_add_two_wraps [of "queue_index st"]
  have "2 ^ (LENGTH('a) - 1) \<le> sint (queue_index st) + 2
          \<longrightarrow> sint (queue_index st') = sint (queue_index st) + 2 - 2 ^ LENGTH('a)"
    by simp
  then show ?thesis
    unfolding Continue step.case using level_Continue [OF Continue] by blast
next
  case (Break st')
  from level_Break [OF this] show ?thesis
    by (simp add: Break)
next
  case Fault
  from level_Fault [OF this] show ?thesis
    by (simp add: Fault)
qed

theorem level_advances_queue_index_witness:
  "(case level (sample_cfg True all_succeed 3) (sample_frame False 1 (2 :: 32 word)) of
      Continue st' \<Rightarrow>
        queue_index st' = 4 \<and> iteration (en st') = Some 2
        \<and> map is_dispatch (trace (en st'))
            = [True, False, False, False, False, True, False, False]
    | _ \<Rightarrow> False)
   \<and> sint (2 :: 32 word) + 2 < 2 ^ (LENGTH(32) - 1)
   \<and> (case level (sample_cfg True all_succeed 1) (sample_frame False 1 (2 :: 32 word)) of
        Break st' \<Rightarrow> queue_index st' = 3 \<and> iteration (en st') = Some 1
      | _ \<Rightarrow> False)
   \<and> level (sample_cfg True all_succeed 3)
        ((sample_frame False 1 (2 :: 32 word))\<lparr>en := EnactorTwoPhase 200 0 0 False\<rparr>) = Fault
   \<and> (2 :: int) ^ (LENGTH(8) - 1) \<le> sint (127 :: 8 word) + 2
   \<and> (case level (sample_cfg True all_succeed 3) (sample_frame False 1 (127 :: 8 word)) of
        Continue st' \<Rightarrow> queue_index st' = 129 \<and> sint (queue_index st') = 127 + 2 - 2 ^ 8
      | _ \<Rightarrow> False)"
  using level_advances_queue_index [where cfg = "sample_cfg True all_succeed 3"
           and st = "sample_frame False 1 (2 :: 32 word)"]
        level_advances_queue_index [where cfg = "sample_cfg True all_succeed 1"
           and st = "sample_frame False 1 (2 :: 32 word)"]
        level_advances_queue_index [where cfg = "sample_cfg True all_succeed 3"
           and st = "(sample_frame False 1 (2 :: 32 word))\<lparr>en := EnactorTwoPhase 200 0 0 False\<rparr>"]
        level_advances_queue_index [where cfg = "sample_cfg True all_succeed 3"
           and st = "sample_frame False 1 (127 :: 8 word)"]
  by (simp add: run_defs then_step.simps)

text \<open>
  Claim C4 as stated fails: "never decreases" does not hold of the index as the integer
  it denotes. With an 8-bit \<open>VertexId\<close> a completed level takes the index 126 to -128.
\<close>

theorem queue_index_wraps_around:
  "(case level (sample_cfg True all_succeed 3) (sample_frame False 1 (126 :: 8 word)) of
      Continue st' \<Rightarrow> sint (queue_index st') = - 128
    | _ \<Rightarrow> False)
   \<and> sint (126 :: 8 word) = 126"
  by (simp add: run_defs then_step.simps)

subsection \<open>The throttle and the completion flag\<close>

lemma is_Launch_expand_dispatch: "is_Launch_expand c \<Longrightarrow> is_dispatch c"
  by (cases c) simp_all

text \<open>
  Claim C5. When the contraction phase of a level is through (\<open>st1\<close>), the flag
  \<open>done[0]\<close> has not been read in it. The next call records the throttle event when
  \<open>iteration[0]\<close> is odd and waits for it when it is even; if that call fails the
  loop is left with its error; otherwise \<open>done[0]\<close> is read next; if it is set the
  loop is left at once, no expansion having been launched in this level; if it is clear
  the level goes on with the expansion phase.
\<close>

theorem throttle_then_completion_check:
  fixes st :: "'a::len word frame"
  assumes contracted: "contract_phase cfg st = Continue st1"
      and flag: "done_host (en st) = Some d"
  shows "\<exists>it. iteration (en st1) = Some it
       \<and> Read_done \<notin> set (drop (length (trace (en st))) (trace (en st1)))
       \<and> (let w = cfg_world cfg;
               h = trace (en st1)
                     @ [if it AND 1 \<noteq> 0 then EventRecord_throttle
                        else EventSynchronize_throttle];
               flag_read = device_done w (h @ [Read_done])
           in (status w h \<noteq> cudaSuccess \<longrightarrow>
                 level cfg st = Break (st1\<lparr>en := (en st1)\<lparr>trace := h\<rparr>, retval := status w h\<rparr>))
            \<and> (status w h = cudaSuccess \<and> flag_read \<noteq> 0 \<longrightarrow>
                 level cfg st
                   = Break (st1\<lparr>en := (en st1)\<lparr>trace := h @ [Read_done],
                                                 done_host := Some flag_read\<rparr>,
                                  retval := cudaSuccess\<rparr>)
                 \<and> \<not> list_ex is_Launch_expand (drop (length (trace (en st))) (h @ [Read_done])))
            \<and> (status w h = cudaSuccess \<and> flag_read = 0 \<longrightarrow>
                 level cfg st
                   = expand_phase cfg
                       (st1\<lparr>en := (en st1)\<lparr>trace := h @ [Read_done], done_host := Some 0\<rparr>,
                            retval := cudaSuccess\<rparr>)))"
proof -
  from contract_phase_Continue [OF contracted] obtain it ca ev where
    c: "iteration (en st1) = Some it" "done_host (en st1) = done_host (en st)"
       "trace (en st1) = trace (en st) @ Launch_contract ca # ev"
       "list_all (\<lambda>c. \<not> is_dispatch c) ev" "Read_done \<notin> set ev"
    by blast
  define e :: "'a word call"
    where "e = (if it AND 1 \<noteq> 0 then EventRecord_throttle else EventSynchronize_throttle)"
  define h where "h = trace (en st1) @ [e]"
  define flag_read where "flag_read = device_done (cfg_world cfg) (h @ [Read_done])"
  let ?b = "st1\<lparr>en := (en st1)\<lparr>trace := h\<rparr>, retval := status (cfg_world cfg) h\<rparr>"
  have lev: "level cfg st = then_step (throttle cfg st1)
               (\<lambda>st. then_step (check_done cfg st) (expand_phase cfg))"
    by (simp add: level_def contracted)
  have thr: "throttle cfg st1 = (if status (cfg_world cfg) h \<noteq> cudaSuccess then Break ?b else Continue ?b)"
    by (simp add: throttle_Some [OF c(1)] Let_def e_def h_def)
  have chk: "check_done cfg (st1\<lparr>en := (en st1)\<lparr>trace := h\<rparr>, retval := r\<rparr>)
               = (let st' = st1\<lparr>en := (en st1)\<lparr>trace := h @ [Read_done],
                                                done_host := Some flag_read\<rparr>,
                                retval := r\<rparr>
                  in if flag_read \<noteq> 0 then Break st' else Continue st')" for r
  proof -
    have "done_host (en (st1\<lparr>en := (en st1)\<lparr>trace := h\<rparr>, retval := r\<rparr>)) = Some d"
      using c(2) flag by simp
    then show ?thesis
      by (simp add: check_done_Some Let_def flag_read_def)
  qed
  have no_read: "Read_done \<notin> set (drop (length (trace (en st))) (trace (en st1)))"
    using c(3,5) by simp
  have "\<not> is_Launch_expand e"
    by (simp add: e_def)
  then have no_expand:
    "\<not> list_ex is_Launch_expand (drop (length (trace (en st))) (h @ [Read_done]))"
    using c(3,4)
    by (auto simp add: h_def list_ex_iff list_all_iff dest: is_Launch_expand_dispatch)
  have failed: "level cfg st = Break ?b" if "status (cfg_world cfg) h \<noteq> cudaSuccess"
    using that by (simp add: lev thr)
  have finished: "level cfg st
        = Break (st1\<lparr>en := (en st1)\<lparr>trace := h @ [Read_done], done_host := Some flag_read\<rparr>,
                     retval := cudaSuccess\<rparr>)"
    if "status (cfg_world cfg) h = cudaSuccess" "flag_read \<noteq> 0"
    using that by (simp add: lev thr chk Let_def)
  have goes_on: "level cfg st
        = expand_phase cfg
            (st1\<lparr>en := (en st1)\<lparr>trace := h @ [Read_done], done_host := Some 0\<rparr>,
                 retval := cudaSuccess\<rparr>)"
    if "status (cfg_world cfg) h = cudaSuccess" "flag_read = 0"
    using that by (simp add: lev thr chk Let_def)
  from c(1) no_read no_expand failed finished goes_on show ?thesis
    unfolding Let_def flag_read_def h_def e_def by blast
qed

theorem throttle_then_completion_check_witness:
  "contract_phase (sample_cfg False all_succeed 1) (sample_frame False 1 (2 :: 32 word))
     = Continue
        ((sample_frame False 1 3)
           \<lparr>en := (en (sample_frame False 1 3))
              \<lparr>trace :=
                 [Launch_contract
                    \<lparr> c_policy = contract_policy_200 False, c_grid_size = 112, c_threads = 128,
                      c_src = 0, c_iteration = 1, c_num_elements = 0, c_queue_index = 2,
                      c_steal_index = 2, c_num_gpus = 1, c_max_vertex_frontier = 8,
                      c_device_args =
                        [ref_d_done, d_keys 1, d_keys 0, d_values 1, d_labels, d_visited_mask,
                         work_progress, ref_contract_kernel_stats] \<rparr>]\<rparr>\<rparr>)
   \<and> done_host (en (sample_frame False 1 (2 :: 32 word))) = Some 0
   \<and> (1 :: 64 word) AND 1 \<noteq> 0
   \<and> level (sample_cfg False all_succeed 1) (sample_frame False 1 (2 :: 32 word))
     = Break
        ((sample_frame False 1 3)
           \<lparr>en := (en (sample_frame False 1 3))
              \<lparr>trace :=
                 [Launch_contract
                    \<lparr> c_policy = contract_policy_200 False, c_grid_size = 112, c_threads = 128,
                      c_src = 0, c_iteration = 1, c_num_elements = 0, c_queue_index = 2,
                      c_steal_index = 2, c_num_gpus = 1, c_max_vertex_frontier = 8,
                      c_device_args =
                        [ref_d_done, d_keys 1, d_keys 0, d_values 1, d_labels, d_visited_mask,
                         work_progress, ref_contract_kernel_stats] \<rparr>,
                  EventRecord_throttle, Read_done],
               done_host := Some 1\<rparr>\<rparr>)
   \<and> (case level (sample_cfg False all_succeed 3) (sample_frame False 2 (4 :: 32 word)) of
        Continue st' \<Rightarrow>
          map is_dispatch (trace (en st')) = [True, False, False, True]
          \<and> trace (en st') ! 1 = EventSynchronize_throttle \<and> trace (en st') ! 2 = Read_done
      | _ \<Rightarrow> False)"
proof -
  let ?cfg = "sample_cfg False all_succeed 1 :: 32 word search_cfg"
  let ?st = "sample_frame False 1 (2 :: 32 word)"
  let ?st1 = "(sample_frame False 1 (3 :: 32 word))
           \<lparr>en := (en (sample_frame False 1 3))
              \<lparr>trace :=
                 [Launch_contract
                    \<lparr> c_policy = contract_policy_200 False, c_grid_size = 112, c_threads = 128,
                      c_src = 0, c_iteration = 1, c_num_elements = 0, c_queue_index = 2,
                      c_steal_index = 2, c_num_gpus = 1, c_max_vertex_frontier = 8,
                      c_device_args =
                        [ref_d_done, d_keys 1, d_keys 0, d_values 1, d_labels, d_visited_mask,
                         work_progress, ref_contract_kernel_stats] \<rparr>]\<rparr>\<rparr>"
  have contracted: "contract_phase ?cfg ?st = Continue ?st1"
    by (simp add: run_defs)
  have flag: "done_host (en ?st) = Some 0"
    by (simp add: sample_frame_def)
  have other: "case level (sample_cfg False all_succeed 3) (sample_frame False 2 (4 :: 32 word)) of
        Continue st' \<Rightarrow>
          map is_dispatch (trace (en st')) = [True, False, False, True]
          \<and> trace (en st') ! 1 = EventSynchronize_throttle \<and> trace (en st') ! 2 = Read_done
      | _ \<Rightarrow> False"
    by (simp add: run_defs)
  from throttle_then_completion_check [OF contracted flag] contracted flag other
  show ?thesis
    by (simp add: run_defs)
qed

subsection \<open>The launches of a whole search\<close>

lemma count_unused_not_dispatch: "\<not> is_dispatch c \<Longrightarrow> count_unused cfg c"
  by (cases c) (simp_all add: count_unused_def)

lemma list_all_count_unused:
  "list_all (\<lambda>c. \<not> is_dispatch c) ev \<Longrightarrow> list_all (count_unused cfg) ev"
  by (auto simp add: list_all_iff intro: count_unused_not_dispatch)

lemma grows_refl: "grows cfg a a"
  by (simp add: grows_def)

lemma grows_trans:
  assumes "grows cfg a b" and "grows cfg b c"
  shows "grows cfg a c"
proof -
  from assms obtain ev1 ev2 where
    "trace (en b) = trace (en a) @ ev1" "list_all (count_unused cfg) ev1"
    "trace (en c) = trace (en b) @ ev2" "list_all (count_unused cfg) ev2"
    by (auto simp add: grows_def)
  then have "trace (en c) = trace (en a) @ (ev1 @ ev2) \<and> list_all (count_unused cfg) (ev1 @ ev2)"
    by simp
  then show ?thesis
    unfolding grows_def by blast
qed

lemma then_step_grows:
  assumes first: "\<And>z. x = Continue z \<or> x = Break z \<Longrightarrow> grows cfg st z"
      and rest: "\<And>z. x = Continue z \<Longrightarrow> rest z = Continue st' \<or> rest z = Break st'
                   \<Longrightarrow> grows cfg z st'"
      and r: "then_step x rest = Continue st' \<or> then_step x rest = Break st'"
  shows "grows cfg st st'"
proof (cases x)
  case (Continue z)
  with r have "rest z = Continue st' \<or> rest z = Break st'"
    by simp
  with first rest Continue show ?thesis
    by (blast intro: grows_trans)
next
  case (Break z)
  with r first show ?thesis
    by simp
next
  case Fault
  with r show ?thesis
    by simp
qed

lemma contract_phase_grows:
  assumes "contract_phase cfg st = Continue st' \<or> contract_phase cfg st = Break st'"
  shows "grows cfg st st'"
proof -
  from assms contract_phase_Continue [of cfg st st'] contract_phase_Break [of cfg st st']
  obtain it ev where
    "trace (en st') = trace (en st)
               @ Launch_contract
                   \<lparr> c_policy = ContractPolicy cfg, c_grid_size = contract_grid_size cfg,
                     c_threads = C_THREADS (ContractPolicy cfg), c_src = cfg_src cfg,
                     c_iteration = it, c_num_elements = 0,
                     c_queue_index = queue_index st, c_steal_index = queue_index st,
                     c_num_gpus = 1,
                     c_max_vertex_frontier = frontier_elements_0 (cfg_problem cfg),
                     c_device_args =
                       [ref_d_done, d_keys 1, d_keys 0, d_values 1, d_labels, d_visited_mask,
                        work_progress, ref_contract_kernel_stats] \<rparr> # ev"
    "list_all (\<lambda>c. \<not> is_dispatch c) ev"
    by blast
  then have "\<exists>c. trace (en st') = trace (en st) @ (c # ev)
               \<and> list_all (count_unused cfg) (c # ev)"
    by (auto simp add: count_unused_def dest: list_all_count_unused [where cfg = cfg])
  then show ?thesis
    unfolding grows_def by blast
qed

lemma expand_phase_grows:
  assumes "expand_phase cfg st = Continue st' \<or> expand_phase cfg st = Break st'"
  shows "grows cfg st st'"
proof -
  from assms expand_phase_Continue [of cfg st st'] expand_phase_Break [of cfg st st']
  obtain ea ev where
    "trace (en st') = trace (en st) @ Launch_expand ea # ev"
    "list_all (\<lambda>c. \<not> is_dispatch c) ev"
    by blast
  then have "trace (en st') = trace (en st) @ (Launch_expand ea # ev)
               \<and> list_all (count_unused cfg) (Launch_expand ea # ev)"
    by (auto simp add: count_unused_def dest: list_all_count_unused [where cfg = cfg])
  then show ?thesis
    unfolding grows_def by blast
qed

lemma throttle_grows:
  assumes "throttle cfg st = Continue st' \<or> throttle cfg st = Break st'"
  shows "grows cfg st st'"
  using assms
  by (cases "iteration (en st)")
     (auto simp add: throttle_def attempt_def invoke_def Let_def grows_def count_unused_def
        split: if_splits)

lemma check_done_grows:
  assumes "check_done cfg st = Continue st' \<or> check_done cfg st = Break st'"
  shows "grows cfg st st'"
  using assms
  by (cases "done_host (en st)")
     (auto simp add: check_done_def Let_def grows_def count_unused_def split: if_splits)

lemma level_grows:
  assumes "level cfg st = Continue st' \<or> level cfg st = Break st'"
  shows "grows cfg st st'"
  using assms unfolding level_def
  by (elim then_step_grows [rotated 2])
     (erule contract_phase_grows throttle_grows check_done_grows expand_phase_grows)+

lemma run_levels_grows:
  assumes "run_levels n cfg st = Continue st' \<or> run_levels n cfg st = Break st'"
  shows "grows cfg st st'"
  using assms
proof (induction n arbitrary: st)
  case 0
  then show ?case by (auto simp add: grows_refl)
next
  case (Suc n)
  from Suc.prems show ?case
    unfolding run_levels.simps
    by (rule then_step_grows [rotated 2]) (erule level_grows, erule Suc.IH)
qed

text \<open>The loop reads through no null pointer once both words are allocated.\<close>

lemma run_levels_Fault:
  assumes "run_levels n cfg st = Fault"
  shows "iteration (en st) = None \<or> done_host (en st) = None"
  using assms
proof (induction n arbitrary: st)
  case 0
  then show ?case by simp
next
  case (Suc n)
  from Suc.prems have "then_step (level cfg st) (run_levels n cfg) = Fault"
    by simp
  then show ?case
  proof (cases rule: then_step_Fault)
    case stop
    then show ?thesis by (rule level_Fault)
  next
    case (go z)
    from level_Continue [OF go(1)] have "iteration (en z) \<noteq> None" "done_host (en z) \<noteq> None"
      by auto
    with Suc.IH [OF go(2)] show ?thesis
      by simp
  qed
qed

lemma EnactIterativeSearch_no_NullDereference:
  "EnactIterativeSearch fuel instrument w csr src max_grid_size s \<noteq> Some NullDereference"
proof -
  have "run_levels fuel cfg \<lparr> en = s1, retval = r, queue_index = 0, queue_length = 0 \<rparr> \<noteq> Fault"
    if "Setup w csr e_grid c_grid s = (cudaSuccess, s1)" for cfg e_grid c_grid s1 r
    using Setup_success [OF that] run_levels_Fault [of fuel cfg "\<lparr> en = s1, retval = r, queue_index = 0, queue_length = 0 \<rparr>"]
    by auto
  then show ?thesis
    by (auto simp add: EnactIterativeSearch_def EnactIterativeSearch_policy_def Let_def
          split: prod.splits step.splits)
qed

text \<open>The contraction launches of the loop and the queue indices they are handed.\<close>

lemma contract_launches_append:
  "contract_launches (xs @ ys) = contract_launches xs @ contract_launches ys"
  by (induction xs rule: contract_launches.induct) simp_all

lemma contract_launches_no_dispatch:
  "list_all (\<lambda>c. \<not> is_dispatch c) ev \<Longrightarrow> contract_launches ev = []"
  by (induction ev rule: contract_launches.induct) simp_all

lemma contract_launches_set:
  "set (contract_launches ev) = {a. Launch_contract a \<in> set ev}"
  by (induction ev rule: contract_launches.induct) auto

lemma consecutive_nth:
  "consecutive q as \<Longrightarrow> k < length as \<Longrightarrow> c_queue_index (as ! k) = q + 2 * of_nat k"
proof (induction as arbitrary: q k)
  case Nil
  then show ?case by simp
next
  case (Cons a as)
  show ?case
  proof (cases k)
    case 0
    with Cons.prems show ?thesis by simp
  next
    case (Suc j)
    with Cons.prems have "c_queue_index (as ! j) = q + 2 + 2 * of_nat j"
      using Cons.IH [of "q + 2" j] by simp
    with Suc show ?thesis
      by (simp add: algebra_simps)
  qed
qed

lemma no_contraction_trans:
  "no_contraction a b \<Longrightarrow> no_contraction b c \<Longrightarrow> no_contraction a c"
  by (auto simp add: no_contraction_def contract_launches_append)

lemma throttle_no_contraction:
  assumes "throttle cfg st = Continue st' \<or> throttle cfg st = Break st'"
  shows "no_contraction st st'"
  using assms
  by (cases "iteration (en st)")
     (auto simp add: throttle_def attempt_def invoke_def Let_def no_contraction_def
        split: if_splits)

lemma check_done_no_contraction:
  assumes "check_done cfg st = Continue st' \<or> check_done cfg st = Break st'"
  shows "no_contraction st st'"
  using assms
  by (cases "done_host (en st)")
     (auto simp add: check_done_def Let_def no_contraction_def split: if_splits)

lemma expand_phase_no_contraction:
  assumes "expand_phase cfg st = Continue st' \<or> expand_phase cfg st = Break st'"
  shows "no_contraction st st'"
proof -
  from assms expand_phase_Continue [of cfg st st'] expand_phase_Break [of cfg st st']
  obtain ea ev where
    "trace (en st') = trace (en st) @ Launch_expand ea # ev"
    "list_all (\<lambda>c. \<not> is_dispatch c) ev"
    by blast
  then have "trace (en st') = trace (en st) @ (Launch_expand ea # ev)
               \<and> contract_launches (Launch_expand ea # ev) = []"
    by (simp add: contract_launches_no_dispatch)
  then show ?thesis
    unfolding no_contraction_def by blast
qed

lemma level_tail_no_contraction:
  assumes "then_step (throttle cfg a) (\<lambda>st. then_step (check_done cfg st) (expand_phase cfg))
             = Continue z
         \<or> then_step (throttle cfg a) (\<lambda>st. then_step (check_done cfg st) (expand_phase cfg))
             = Break z"
  shows "no_contraction a z"
  using assms
  by (elim then_step_rel [where R = no_contraction, rotated 3])
     (erule throttle_no_contraction check_done_no_contraction expand_phase_no_contraction
      | blast intro: no_contraction_trans)+

lemma level_contract_launch:
  assumes "level cfg st = Continue z \<or> level cfg st = Break z"
  shows "\<exists>ca ev. trace (en z) = trace (en st) @ Launch_contract ca # ev
           \<and> c_queue_index ca = queue_index st \<and> contract_launches ev = []"
proof (cases "contract_phase cfg st")
  case (Continue a)
  with assms have "no_contraction a z"
    unfolding level_def by (intro level_tail_no_contraction) simp
  then obtain ev2 where ev2: "trace (en z) = trace (en a) @ ev2" "contract_launches ev2 = []"
    by (auto simp add: no_contraction_def)
  from contract_phase_Continue [OF Continue] obtain ca ev1 where
    "trace (en a) = trace (en st) @ Launch_contract ca # ev1"
    "c_queue_index ca = queue_index st" "list_all (\<lambda>c. \<not> is_dispatch c) ev1"
    by fastforce
  with ev2 have "trace (en z) = trace (en st) @ Launch_contract ca # (ev1 @ ev2)
           \<and> c_queue_index ca = queue_index st \<and> contract_launches (ev1 @ ev2) = []"
    by (simp add: contract_launches_append contract_launches_no_dispatch)
  then show ?thesis
    by blast
next
  case (Break a)
  with assms have "z = a"
    by (simp add: level_def)
  with contract_phase_Break [OF Break] obtain ca ev1 where
    "trace (en z) = trace (en st) @ Launch_contract ca # ev1"
    "c_queue_index ca = queue_index st" "list_all (\<lambda>c. \<not> is_dispatch c) ev1"
    by fastforce
  then have "trace (en z) = trace (en st) @ Launch_contract ca # ev1
           \<and> c_queue_index ca = queue_index st \<and> contract_launches ev1 = []"
    by (simp add: contract_launches_no_dispatch)
  then show ?thesis
    by blast
next
  case Fault
  with assms show ?thesis
    by (simp add: level_def)
qed

lemma run_levels_contract_launches:
  fixes st :: "'a::len word frame"
  assumes "run_levels n cfg st = Continue st' \<or> run_levels n cfg st = Break st'"
  shows "\<exists>ev. trace (en st') = trace (en st) @ ev
           \<and> consecutive (queue_index st) (contract_launches ev)
           \<and> length (contract_launches ev) \<le> n
           \<and> (run_levels n cfg st = Continue st'
                \<longrightarrow> length (contract_launches ev) = n
                  \<and> queue_index st' = queue_index st + 2 * of_nat n)"
  using assms
proof (induction n arbitrary: st)
  case 0
  then show ?case by auto
next
  case (Suc n)
  show ?case
  proof (cases "level cfg st")
    case (Continue z)
    with Suc.prems have run: "run_levels n cfg z = Continue st' \<or> run_levels n cfg z = Break st'"
      by simp
    from Suc.IH [OF run] obtain ev' where ev':
      "trace (en st') = trace (en z) @ ev'"
      "consecutive (queue_index z) (contract_launches ev')"
      "length (contract_launches ev') \<le> n"
      "run_levels n cfg z = Continue st'
         \<longrightarrow> length (contract_launches ev') = n \<and> queue_index st' = queue_index z + 2 * of_nat n"
      by blast
    from level_contract_launch [of cfg st z] Continue obtain ca ev0 where ev0:
      "trace (en z) = trace (en st) @ Launch_contract ca # ev0"
      "c_queue_index ca = queue_index st" "contract_launches ev0 = []"
      by auto
    from level_Continue [OF Continue] have q: "queue_index z = queue_index st + 2"
      by blast
    have same: "run_levels (Suc n) cfg st = run_levels n cfg z"
      using Continue by simp
    have "trace (en st') = trace (en st) @ (Launch_contract ca # ev0 @ ev')
           \<and> consecutive (queue_index st) (contract_launches (Launch_contract ca # ev0 @ ev'))
           \<and> length (contract_launches (Launch_contract ca # ev0 @ ev')) \<le> Suc n
           \<and> (run_levels (Suc n) cfg st = Continue st'
                \<longrightarrow> length (contract_launches (Launch_contract ca # ev0 @ ev')) = Suc n
                  \<and> queue_index st' = queue_index st + 2 * of_nat (Suc n))"
      using ev' ev0 q unfolding same
      by (simp add: contract_launches_append algebra_simps)
    then show ?thesis
      by blast
  next
    case (Break z)
    with Suc.prems have z: "st' = z" "run_levels (Suc n) cfg st = Break st'"
      by simp_all
    from level_contract_launch [of cfg st z] Break obtain ca ev0 where ev0:
      "trace (en z) = trace (en st) @ Launch_contract ca # ev0"
      "c_queue_index ca = queue_index st" "contract_launches ev0 = []"
      by auto
    have "trace (en st') = trace (en st) @ (Launch_contract ca # ev0)
           \<and> consecutive (queue_index st) (contract_launches (Launch_contract ca # ev0))
           \<and> length (contract_launches (Launch_contract ca # ev0)) \<le> Suc n
           \<and> (run_levels (Suc n) cfg st = Continue st'
                \<longrightarrow> length (contract_launches (Launch_contract ca # ev0)) = Suc n
                  \<and> queue_index st' = queue_index st + 2 * of_nat (Suc n))"
      using ev0 z by simp
    then show ?thesis
      by blast
  next
    case Fault
    with Suc.prems show ?thesis
      by simp
  qed
qed


lemma EnactIterativeSearch_launches:
  fixes s :: "'a::len word enactor"
  assumes ret: "EnactIterativeSearch fuel instrument w csr src max_grid_size s
                  = Some (Returned (r, s'))"
  shows "\<exists>cfg ev0 ev. trace s' = trace s @ ev0 @ ev
           \<and> list_all (\<lambda>c. \<not> is_dispatch c) ev0
           \<and> list_all (count_unused cfg) ev
           \<and> ContractPolicy cfg = contract_policy_200 instrument
           \<and> consecutive 0 (contract_launches ev)"
proof -
  let ?cfg = "\<lparr> cfg_INSTRUMENT = instrument, cfg_world = w,
                 ExpandPolicy = expand_policy_200 instrument,
                 ContractPolicy = contract_policy_200 instrument, cfg_problem = csr,
                 cfg_src = src, expand_grid_size = MaxGridSize w 8 max_grid_size,
                 contract_grid_size = MaxGridSize w 8 max_grid_size \<rparr>"
  have "\<exists>ev0 ev. trace s' = trace s @ ev0 @ ev
           \<and> list_all (\<lambda>c. \<not> is_dispatch c) ev0
           \<and> list_all (count_unused ?cfg) ev
           \<and> consecutive 0 (contract_launches ev)"
  proof (cases "200 \<le> device_sm_version s")
    case False
    with ret have "trace s' = trace s @ [] @ []"
      by (simp add: EnactIterativeSearch_def)
    then show ?thesis
      by (intro exI [of _ "[]"] conjI) simp_all
  next
    case True
    obtain r1 s1 where su: "Setup w csr (MaxGridSize w 8 max_grid_size)
                              (MaxGridSize w 8 max_grid_size) s = (r1, s1)"
      by (cases "Setup w csr (MaxGridSize w 8 max_grid_size) (MaxGridSize w 8 max_grid_size) s")
    from quiet_Setup [OF su] obtain ev0 where
      ev0: "trace s1 = trace s @ ev0" "list_all (\<lambda>c. \<not> is_dispatch c) ev0"
      by (auto simp add: quiet_def)
    show ?thesis
    proof (cases "r1 = cudaSuccess")
      case False
      with ret True su have "s' = s1"
        by (simp add: EnactIterativeSearch_def EnactIterativeSearch_policy_def
              expand_policy_200_def contract_policy_200_def Let_def)
      with ev0 have "trace s' = trace s @ ev0 @ []"
        by simp
      with ev0(2) show ?thesis
        by (intro exI [of _ ev0] exI [of _ "[]"] conjI) simp_all
    next
      case ok: True
      let ?st = "\<lparr> en = s1, retval = cudaSuccess, queue_index = 0 :: 'a word,
                    queue_length = 0 \<rparr>"
      from ret True su ok obtain st' where
        st': "run_levels fuel ?cfg ?st = Break st'" "s' = en st'"
        by (auto simp add: EnactIterativeSearch_def EnactIterativeSearch_policy_def
              expand_policy_200_def contract_policy_200_def Let_def split: step.splits)
      from run_levels_grows [of fuel ?cfg ?st st'] st'(1) obtain ev where
        ev: "trace (en st') = trace s1 @ ev" "list_all (count_unused ?cfg) ev"
        by (auto simp add: grows_def)
      from run_levels_contract_launches [of fuel ?cfg ?st st'] st'(1) ev(1)
      have "consecutive 0 (contract_launches ev)"
        by auto
      with ev ev0 st'(2) show ?thesis
        by (intro exI [of _ ev0] exI [of _ ev] conjI) simp_all
    qed
  qed
  then show ?thesis
    by (intro exI [of _ ?cfg]) simp
qed

text \<open>
  Claim C8. However many levels the loop has run, and whether it is still running or has
  left, every contraction launch it has made passes 0 for \<open>num_elements\<close>, together
  with the work-progress counters and the queue index (also as steal index). The index is
  the current one: the \<open>k\<close>-th launch (from 0) of a loop entered with the index \<open>q\<close>
  is handed \<open>q + 2 * k\<close>, which is what the level's two increments have made of the
  index by then; so the frontier length the kernel consults is the counter under that
  index. The loop makes one contraction launch in each level. In every search that
  \<open>EnactIterativeSearch\<close> returns from, the indices are 0, 2, 4, ... and every
  contraction launch runs under a policy whose \<open>DEQUEUE_PROBLEM_SIZE\<close> is set.
\<close>

theorem contract_dispatch_count_unused:
  fixes st :: "'a::len word frame" and s :: "'a word enactor"
  shows "(run_levels n cfg st = Continue st' \<or> run_levels n cfg st = Break st' \<longrightarrow>
            (\<forall>a. Launch_contract a \<in> set (drop (length (trace (en st))) (trace (en st')))
                 \<longrightarrow> c_num_elements a = 0 \<and> c_policy a = ContractPolicy cfg
                   \<and> c_steal_index a = c_queue_index a
                   \<and> work_progress \<in> set (c_device_args a))
            \<and> (let launches = contract_launches (drop (length (trace (en st))) (trace (en st')))
               in (\<forall>k < length launches.
                     c_queue_index (launches ! k) = queue_index st + 2 * of_nat k
                     \<and> contract_frontier_length counters (launches ! k)
                         = counters (queue_index st + 2 * of_nat k))
                  \<and> length launches \<le> n
                  \<and> (run_levels n cfg st = Continue st'
                       \<longrightarrow> length launches = n
                         \<and> queue_index st' = queue_index st + 2 * of_nat n)))
       \<and> (EnactIterativeSearch fuel instrument w csr src max_grid_size s = Some (Returned (r, s')) \<longrightarrow>
            (\<forall>a. Launch_contract a \<in> set (drop (length (trace s)) (trace s'))
                 \<longrightarrow> c_num_elements a = 0 \<and> DEQUEUE_PROBLEM_SIZE (c_policy a)
                   \<and> c_steal_index a = c_queue_index a
                   \<and> work_progress \<in> set (c_device_args a))
            \<and> (let launches = contract_launches (drop (length (trace s)) (trace s'))
               in \<forall>k < length launches.
                    c_queue_index (launches ! k) = 2 * of_nat k
                    \<and> contract_frontier_length counters (launches ! k)
                        = counters (2 * of_nat k)))"
proof -
  have loop: "c_num_elements a = 0 \<and> c_policy a = ContractPolicy cfg
                \<and> c_steal_index a = c_queue_index a \<and> work_progress \<in> set (c_device_args a)"
    if "run_levels n cfg st = Continue st' \<or> run_levels n cfg st = Break st'"
      and "Launch_contract a \<in> set (drop (length (trace (en st))) (trace (en st')))"
    for a
  proof -
    from run_levels_grows [OF that(1)] obtain ev where
      "trace (en st') = trace (en st) @ ev" "list_all (count_unused cfg) ev"
      by (auto simp add: grows_def)
    with that(2) have "count_unused cfg (Launch_contract a)"
      by (simp add: list_all_iff)
    then show ?thesis
      by (simp add: count_unused_def)
  qed
  have loop_index:
    "let launches = contract_launches (drop (length (trace (en st))) (trace (en st')))
     in (\<forall>k < length launches.
           c_queue_index (launches ! k) = queue_index st + 2 * of_nat k
           \<and> contract_frontier_length counters (launches ! k)
               = counters (queue_index st + 2 * of_nat k))
        \<and> length launches \<le> n
        \<and> (run_levels n cfg st = Continue st'
             \<longrightarrow> length launches = n \<and> queue_index st' = queue_index st + 2 * of_nat n)"
    if run: "run_levels n cfg st = Continue st' \<or> run_levels n cfg st = Break st'"
  proof -
    from run_levels_contract_launches [OF run] obtain ev where ev:
      "trace (en st') = trace (en st) @ ev"
      "consecutive (queue_index st) (contract_launches ev)"
      "length (contract_launches ev) \<le> n"
      "run_levels n cfg st = Continue st'
         \<longrightarrow> length (contract_launches ev) = n \<and> queue_index st' = queue_index st + 2 * of_nat n"
      by blast
    from ev(1) have d: "drop (length (trace (en st))) (trace (en st')) = ev"
      by simp
    show ?thesis
      unfolding d Let_def using ev(3,4) consecutive_nth [OF ev(2)]
      by (simp add: contract_frontier_length_def)
  qed
  have search: "c_num_elements a = 0 \<and> DEQUEUE_PROBLEM_SIZE (c_policy a)
                \<and> c_steal_index a = c_queue_index a \<and> work_progress \<in> set (c_device_args a)"
    if ret: "EnactIterativeSearch fuel instrument w csr src max_grid_size s = Some (Returned (r, s'))"
      and a: "Launch_contract a \<in> set (drop (length (trace s)) (trace s'))"
    for a
  proof -
    from EnactIterativeSearch_launches [OF ret] obtain cfg' ev0 ev where ev:
      "trace s' = trace s @ ev0 @ ev" "list_all (\<lambda>c. \<not> is_dispatch c) ev0"
      "list_all (count_unused cfg') ev" "ContractPolicy cfg' = contract_policy_200 instrument"
      by blast
    from a ev(1) have "Launch_contract a \<in> set ev0 \<or> Launch_contract a \<in> set ev"
      by auto
    then have "count_unused cfg' (Launch_contract a)"
      using ev(2,3) by (auto simp add: list_all_iff)
    with ev(4) show ?thesis
      by (simp add: count_unused_def contract_policy_200_def)
  qed
  have search_index:
    "let launches = contract_launches (drop (length (trace s)) (trace s'))
     in \<forall>k < length launches.
          c_queue_index (launches ! k) = 2 * of_nat k
          \<and> contract_frontier_length counters (launches ! k) = counters (2 * of_nat k)"
    if ret: "EnactIterativeSearch fuel instrument w csr src max_grid_size s = Some (Returned (r, s'))"
  proof -
    from EnactIterativeSearch_launches [OF ret] obtain ev0 ev where ev:
      "trace s' = trace s @ ev0 @ ev" "list_all (\<lambda>c. \<not> is_dispatch c) ev0"
      "consecutive 0 (contract_launches ev)"
      by blast
    from ev(1) have d: "drop (length (trace s)) (trace s') = ev0 @ ev"
      by simp
    from ev(2) have l: "contract_launches (ev0 @ ev) = contract_launches ev"
      by (simp add: contract_launches_append contract_launches_no_dispatch)
    show ?thesis
      unfolding d l Let_def using consecutive_nth [OF ev(3)]
      by (simp add: contract_frontier_length_def)
  qed
  from loop loop_index search search_index show ?thesis
    by simp
qed


theorem contract_dispatch_count_unused_witness:
  "(case run_levels 3 (sample_cfg False all_succeed 2) (sample_frame False 0 (0 :: 32 word)) of
      Break st' \<Rightarrow>
        [(c_num_elements a, c_queue_index a, c_steal_index a). Launch_contract a \<leftarrow> trace (en st')]
          = [(0, 0, 0), (0, 2, 2)]
    | _ \<Rightarrow> False)
   \<and> (case run_levels 2 (sample_cfg False all_succeed 5) (sample_frame False 0 (6 :: 32 word)) of
        Continue st' \<Rightarrow>
          map c_queue_index (contract_launches (trace (en st'))) = [6, 8]
          \<and> queue_index st' = 10
      | _ \<Rightarrow> False)
   \<and> (case EnactIterativeSearch 5 True (sample_world all_succeed 2) sample_problem 0 0
              (EnactorTwoPhase 200 0 0 False :: 32 word enactor) of
        Some (Returned (r, s')) \<Rightarrow>
          r = cudaSuccess
          \<and> [(c_num_elements a, DEQUEUE_PROBLEM_SIZE (c_policy a), c_queue_index a).
                Launch_contract a \<leftarrow> trace s']
              = [(0, True, 0), (0, True, 2)]
          \<and> map (contract_frontier_length (\<lambda>q. if q = 2 then 7 else 1))
               (contract_launches (trace s')) = [1, 7]
      | _ \<Rightarrow> False)"
proof -
  have run: "(case run_levels 3 (sample_cfg False all_succeed 2) (sample_frame False 0 (0 :: 32 word)) of
      Break st' \<Rightarrow>
        [(c_num_elements a, c_queue_index a, c_steal_index a). Launch_contract a \<leftarrow> trace (en st')]
          = [(0, 0, 0), (0, 2, 2)]
    | _ \<Rightarrow> False)
   \<and> (case run_levels 2 (sample_cfg False all_succeed 5) (sample_frame False 0 (6 :: 32 word)) of
        Continue st' \<Rightarrow>
          map c_queue_index (contract_launches (trace (en st'))) = [6, 8]
          \<and> queue_index st' = 10
      | _ \<Rightarrow> False)
   \<and> (case EnactIterativeSearch 5 True (sample_world all_succeed 2) sample_problem 0 0
              (EnactorTwoPhase 200 0 0 False :: 32 word enactor) of
        Some (Returned (r, s')) \<Rightarrow>
          r = cudaSuccess
          \<and> [(c_num_elements a, DEQUEUE_PROBLEM_SIZE (c_policy a), c_queue_index a).
                Launch_contract a \<leftarrow> trace s']
              = [(0, True, 0), (0, True, 2)]
          \<and> map (contract_frontier_length (\<lambda>q. if q = 2 then 7 else 1))
               (contract_launches (trace s')) = [1, 7]
      | _ \<Rightarrow> False)"
    by (simp add: run_defs contract_frontier_length_def eval_nat_numeral)
  from contract_dispatch_count_unused
          [where n = 3 and cfg = "sample_cfg False all_succeed 2"
             and st = "sample_frame False 0 (0 :: 32 word)"
             and fuel = 5 and instrument = True and w = "sample_world all_succeed 2"
             and csr = sample_problem and src = 0 and max_grid_size = 0
             and s = "EnactorTwoPhase 200 0 0 False"]
  show ?thesis
    by (simp only: run)
qed

subsection \<open>Searches keep what Setup allocated\<close>

text \<open>
  Neither search frees or nulls a long-lived object, so \<open>Setup\<close> meets them
  allocated at every search after the first that succeeded.
\<close>

lemma contract_phase_keeps:
  assumes "contract_phase cfg st = Continue st' \<or> contract_phase cfg st = Break st'"
  shows "long_lived_allocated (en st) \<longrightarrow> long_lived_allocated (en st')"
  using assms
  by (cases "iteration (en st)")
     (auto simp add: contract_phase_def phase_defs long_lived_allocated_def
        split: if_splits prod.splits)

lemma throttle_keeps:
  assumes "throttle cfg st = Continue st' \<or> throttle cfg st = Break st'"
  shows "long_lived_allocated (en st) \<longrightarrow> long_lived_allocated (en st')"
  using assms
  by (cases "iteration (en st)")
     (auto simp add: throttle_def phase_defs long_lived_allocated_def split: if_splits)

lemma check_done_keeps:
  assumes "check_done cfg st = Continue st' \<or> check_done cfg st = Break st'"
  shows "long_lived_allocated (en st) \<longrightarrow> long_lived_allocated (en st')"
  using assms
  by (cases "done_host (en st)")
     (auto simp add: check_done_def Let_def long_lived_allocated_def split: if_splits)

lemma expand_phase_keeps:
  assumes "expand_phase cfg st = Continue st' \<or> expand_phase cfg st = Break st'"
  shows "long_lived_allocated (en st) \<longrightarrow> long_lived_allocated (en st')"
  using assms
  by (auto simp add: expand_phase_def phase_defs long_lived_allocated_def
        split: if_splits prod.splits option.splits)

lemma level_keeps:
  assumes "level cfg st = Continue st' \<or> level cfg st = Break st'"
  shows "long_lived_allocated (en st) \<longrightarrow> long_lived_allocated (en st')"
  using assms unfolding level_def
  by (elim then_step_rel [where R = "\<lambda>a b. long_lived_allocated (en a) \<longrightarrow> long_lived_allocated (en b)",
                          rotated 3])
     (erule contract_phase_keeps throttle_keeps check_done_keeps expand_phase_keeps | blast)+

lemma run_levels_keeps:
  assumes "run_levels n cfg st = Continue st' \<or> run_levels n cfg st = Break st'"
  shows "long_lived_allocated (en st) \<longrightarrow> long_lived_allocated (en st')"
  using assms
proof (induction n arbitrary: st)
  case 0
  then show ?case by auto
next
  case (Suc n)
  from Suc.prems show ?case
    unfolding run_levels.simps
    by (rule then_step_rel [where R = "\<lambda>a b. long_lived_allocated (en a) \<longrightarrow> long_lived_allocated (en b)",
                            rotated 3])
       (erule level_keeps Suc.IH | blast)+
qed

lemma Setup_keeps_allocated:
  assumes "long_lived_allocated s" and "Setup w csr e_grid c_grid s = (r, s')"
  shows "long_lived_allocated s'"
  using assms(2) assms(1)
  by (auto simp add: Setup_allocated [OF assms(1)] Let_def long_lived_allocated_def
        split: if_splits)

lemma EnactIterativeSearch_keeps_allocated:
  assumes "long_lived_allocated s"
      and "EnactIterativeSearch fuel instrument w csr src max_grid_size s = Some (Returned (r, s'))"
  shows "long_lived_allocated s'"
proof (cases "200 \<le> device_sm_version s")
  case False
  with assms show ?thesis
    by (simp add: EnactIterativeSearch_def)
next
  case True
  obtain r1 s1 where su: "Setup w csr (MaxGridSize w 8 max_grid_size)
                            (MaxGridSize w 8 max_grid_size) s = (r1, s1)"
    by (cases "Setup w csr (MaxGridSize w 8 max_grid_size) (MaxGridSize w 8 max_grid_size) s")
  from Setup_keeps_allocated [OF assms(1) su] have s1: "long_lived_allocated s1" .
  show ?thesis
  proof (cases "r1 = cudaSuccess")
    case False
    with assms(2) True su s1 show ?thesis
      by (simp add: EnactIterativeSearch_def EnactIterativeSearch_policy_def
            expand_policy_200_def contract_policy_200_def Let_def)
  next
    case ok: True
    let ?cfg = "\<lparr> cfg_INSTRUMENT = instrument, cfg_world = w,
                   ExpandPolicy = expand_policy_200 instrument,
                   ContractPolicy = contract_policy_200 instrument, cfg_problem = csr,
                   cfg_src = src, expand_grid_size = MaxGridSize w 8 max_grid_size,
                   contract_grid_size = MaxGridSize w 8 max_grid_size \<rparr>"
    let ?st = "\<lparr> en = s1, retval = cudaSuccess, queue_index = 0 :: 'a word,
                  queue_length = 0 \<rparr>"
    from assms(2) True su ok obtain st' where
      st': "run_levels fuel ?cfg ?st = Break st'" "s' = en st'"
      by (auto simp add: EnactIterativeSearch_def EnactIterativeSearch_policy_def
            expand_policy_200_def contract_policy_200_def Let_def split: step.splits)
    from run_levels_keeps [of fuel ?cfg ?st st'] st'(1) s1 have "long_lived_allocated (en st')"
      by simp
    with st'(2) show ?thesis
      by simp
  qed
qed

lemma EnactFusedSearch_keeps_allocated:
  assumes "long_lived_allocated s"
  shows "long_lived_allocated (snd (EnactFusedSearch instrument w csr src max_grid_size s))"
proof (cases "200 \<le> device_sm_version s")
  case False
  with assms show ?thesis
    by (simp add: EnactFusedSearch_def)
next
  case True
  obtain r1 s1 where su: "Setup w csr (MaxGridSize w 8 max_grid_size) 0 s = (r1, s1)"
    by (cases "Setup w csr (MaxGridSize w 8 max_grid_size) 0 s")
  from Setup_keeps_allocated [OF assms su] have "long_lived_allocated s1" .
  with True su show ?thesis
    by (auto simp add: EnactFusedSearch_def EnactFusedSearch_policy_def fused_policy_200_def
          or_break_def Let_def launch_fused_def launch_def invoke_def Accumulate_fused_def
          long_lived_allocated_def split: prod.splits)
qed

subsection \<open>Failures in the iterative search\<close>

text \<open>
  Claim C7 fails on the code at line 490. With statistics on, the query of the queue
  length after the first expansion (\<open>GetQueueLength 2\<close>) fails with code 30: the loop
  is left, and \<open>EnactIterativeSearch\<close> returns \<open>cudaSuccess\<close>. The same failure after
  the contraction (line 447, \<open>GetQueueLength 1\<close>) is returned.
\<close>

theorem GetQueueLength_failure_dropped:
  "(case EnactIterativeSearch 5 True (sample_world (fails (GetQueueLength 2) 30) 3)
           sample_problem 0 0 (EnactorTwoPhase 200 0 0 False :: 32 word enactor) of
      Some (Returned (r, s')) \<Rightarrow>
        r = cudaSuccess \<and> last (trace s') = GetQueueLength 2
        \<and> status (sample_world (fails (GetQueueLength 2) 30) 3) (trace s') = cudaErrorOther 30
    | _ \<Rightarrow> False)
   \<and> (case EnactIterativeSearch 5 True (sample_world (fails (GetQueueLength 1) 30) 3)
           sample_problem 0 0 (EnactorTwoPhase 200 0 0 False :: 32 word enactor) of
      Some (Returned (r, s')) \<Rightarrow>
        r = cudaErrorOther 30 \<and> last (trace s') = GetQueueLength 1
    | _ \<Rightarrow> False)"
  by (simp add: run_defs eval_nat_numeral)

section \<open>Properties of BuildRandomGraph\<close>




end
